theory Spec2Isabelle
  imports Complex_Main
begin

section \<open>Python text primitives\<close>

text \<open>
  A Python \<open>str\<close> is a sequence of Unicode code points, and \<open>len\<close> counts code
  points. Text is therefore modelled as a list of code points (natural numbers), not as
  a list of 8-bit characters. \<open>u\<close> turns an ASCII literal into such a text.
\<close>

type_synonym ustr = "nat list"

definition u :: "string \<Rightarrow> ustr" where
  "u s = map of_char s"

text \<open>
  The characters for which \<open>str.isspace\<close> holds. \<open>str.strip()\<close>, \<open>str.split()\<close>
  without argument and the regular expression class \<open>\s\<close> on \<open>str\<close> patterns all use
  this set.
\<close>

definition is_space :: "nat \<Rightarrow> bool" where
  "is_space c =
     ((9 \<le> c \<and> c \<le> 13) \<or> (28 \<le> c \<and> c \<le> 32) \<or> c = 133 \<or> c = 160 \<or> c = 5760
      \<or> (8192 \<le> c \<and> c \<le> 8202) \<or> c = 8232 \<or> c = 8233 \<or> c = 8239 \<or> c = 8287
      \<or> c = 12288)"

text \<open>\<open>s.strip()\<close>: leading and trailing whitespace removed.\<close>

definition strip :: "ustr \<Rightarrow> ustr" where
  "strip s = rev (dropWhile is_space (rev (dropWhile is_space s)))"

text \<open>\<open>s.split(sep)\<close> for a one-character separator: never empty, \<open>''.split(sep) = ['']\<close>.\<close>

fun split_on :: "nat \<Rightarrow> ustr \<Rightarrow> ustr list" where
  "split_on sep [] = [[]]"
| "split_on sep (c # cs) =
     (if c = sep then [] # split_on sep cs
      else (case split_on sep cs of [] \<Rightarrow> [[c]] | l # ls \<Rightarrow> (c # l) # ls))"

text \<open>\<open>len(s.split())\<close>: the number of maximal runs of non-whitespace characters.\<close>

fun count_tokens :: "bool \<Rightarrow> ustr \<Rightarrow> nat" where
  "count_tokens inside [] = 0"
| "count_tokens inside (c # cs) =
     (if is_space c then count_tokens False cs
      else if inside then count_tokens True cs
      else Suc (count_tokens True cs))"

text \<open>\<open>sep.join(parts)\<close>.\<close>

fun join :: "ustr \<Rightarrow> ustr list \<Rightarrow> ustr" where
  "join sep [] = []"
| "join sep [p] = p"
| "join sep (p # q # ps) = p @ sep @ join sep (q # ps)"

text \<open>\<open>s.startswith(p)\<close>, \<open>s.endswith(p)\<close> and \<open>k in s\<close> (substring test).\<close>

fun startswith :: "ustr \<Rightarrow> ustr \<Rightarrow> bool" where
  "startswith s [] = True"
| "startswith [] (p # ps) = False"
| "startswith (c # cs) (p # ps) = (c = p \<and> startswith cs ps)"

definition endswith :: "ustr \<Rightarrow> ustr \<Rightarrow> bool" where
  "endswith s p = startswith (rev s) (rev p)"

fun py_in :: "ustr \<Rightarrow> ustr \<Rightarrow> bool" where
  "py_in k [] = (k = [])"
| "py_in k (c # cs) = (startswith (c # cs) k \<or> py_in k cs)"

section \<open>ChangeDetector: \<open>MainWindow.has_meaningful_change\<close>\<close>

text \<open>
  With no previous text the new text is accepted when its stripped length exceeds 10.
  Otherwise both texts are split at line feeds, and the change is meaningful when some
  line of the new text that is not a line of the old text has a stripped length above 5.
\<close>

definition has_meaningful_change :: "ustr \<Rightarrow> ustr \<Rightarrow> bool" where
  "has_meaningful_change old_content new_content =
     (if old_content = [] then new_content \<noteq> [] \<and> 10 < length (strip new_content)
      else (let old_lines = set (split_on 10 old_content);
                new_lines = set (split_on 10 new_content);
                new_additions = new_lines - old_lines
            in \<exists>line \<in> new_additions. 5 < length (strip line)))"

section \<open>Unicode tables\<close>

text \<open>
  \<open>str.lower\<close>, \<open>str.isdigit\<close> and the regular expression class \<open>\w\<close> are fixed on
  ASCII and read the Unicode character database elsewhere. The database is a parameter
  of the model: \<open>lower_map\<close> gives the lower-case form of a non-ASCII code point (it may be
  several code points), \<open>digit_char\<close> and \<open>word_char\<close> say whether a non-ASCII code
  point is a digit, respectively a word character. The context rule of \<open>str.lower\<close> for
  the Greek capital sigma is not modelled.
\<close>

record unicode_db =
  lower_map :: "nat \<Rightarrow> ustr"
  digit_char :: "nat \<Rightarrow> bool"
  word_char :: "nat \<Rightarrow> bool"

definition lower_char :: "unicode_db \<Rightarrow> nat \<Rightarrow> ustr" where
  "lower_char U c =
     (if 65 \<le> c \<and> c \<le> 90 then [c + 32] else if c < 128 then [c] else lower_map U c)"

definition py_lower :: "unicode_db \<Rightarrow> ustr \<Rightarrow> ustr" where
  "py_lower U s = concat (map (lower_char U) s)"

definition is_digit :: "unicode_db \<Rightarrow> nat \<Rightarrow> bool" where
  "is_digit U c = (if c < 128 then 48 \<le> c \<and> c \<le> 57 else digit_char U c)"

text \<open>\<open>s.isdigit()\<close>: non-empty and every character a digit.\<close>

definition isdigit :: "unicode_db \<Rightarrow> ustr \<Rightarrow> bool" where
  "isdigit U s = (s \<noteq> [] \<and> list_all (is_digit U) s)"

section \<open>TurnExtractor: \<open>MainWindow.extract_latest_reply\<close>\<close>

text \<open>
  The denylist \<open>filter_keywords\<close>, in the order and the groups of the source; keywords
  that are not ASCII are given by their code points.
\<close>

definition filter_keywords :: "ustr list" where
  "filter_keywords =
     \<comment> \<open>time\<close>
     [u ''time'', [26102, 38388], [21018, 21018], u ''just now'', u ''ago'', [21069],
      u ''seconds'', u ''minutes'', u ''hours'',
      [31186], [20998, 38047], [23567, 26102], [22825], u ''days'',
     \<comment> \<open>system and interface elements\<close>
      u ''system'', [31995, 32479], u ''reply'', [22238, 22797], u ''send'', [21457, 36865],
      u ''submit'', [25552, 20132],
      u ''button'', [25353, 38062], u ''click'', [28857, 20987], u ''menu'', [33756, 21333],
      u ''settings'', [35774, 32622],
      u ''tools'', [24037, 20855], u ''search'', [25628, 32034], u ''claude'', u ''gpt'',
      u ''ai'',
     \<comment> \<open>states and prompts\<close>
      u ''typing'', [27491, 22312, 36755, 20837], u ''loading'', [21152, 36733],
      u ''thinking'', [24605, 32771],
      u ''preferences'', [20559, 22909], u ''user'', [29992, 25143], u ''chat'',
      [32842, 22825],
     \<comment> \<open>special characters and symbols\<close>
      [8226], [9675], [9679], [9702], [9642], [9643], [9632], [9633], [9650], [9651],
      [9660], [9661],
      [8594], [8592], [8593], [8595], [9200], [128336], [8986], [128241], [128172],
      [128260],
     \<comment> \<open>common interface text\<close>
      u ''retry'', [37325, 35797], u ''cancel'', [21462, 28040], u ''confirm'',
      [30830, 35748],
      u ''copy'', [22797, 21046], u ''paste'', [31896, 36148], u ''edit'', [32534, 36753],
      u ''delete'', [21024, 38500], u ''save'', [20445, 23384], u ''export'',
      [23548, 20986]]"

text \<open>
  \<open>[line.strip() for line in content.split('\n') if line.strip()]\<close>: the stripped,
  non-empty lines of the content.
\<close>

definition reply_lines :: "ustr \<Rightarrow> ustr list" where
  "reply_lines content = filter (\<lambda>l. l \<noteq> []) (map strip (split_on 10 content))"

text \<open>
  The body of the loop over the lines: a line is kept when none of the five rejections
  applies, tried in the order of the source. Code point 58 is the colon, 45 the hyphen,
  8594 and 8592 the right and the left arrow.
\<close>

definition keep_line :: "unicode_db \<Rightarrow> ustr \<Rightarrow> bool" where
  "keep_line U line =
     (let line_lower = py_lower U line in
      if \<exists>keyword \<in> set filter_keywords. py_in keyword line_lower then False
      else if length line < 8 then False
      else if isdigit U line \<or> count_tokens False line < 3 then False
      else if (\<exists>char \<in> set [58, 45]. char \<in> set line) \<and> length line < 20 then False
      else if (\<exists>p \<in> set [u ''http'', u ''www'', u ''@'', u ''#'']. startswith line p)
              \<or> (\<exists>p \<in> set [u ''...'', [8594], [8592]]. endswith line p) then False
      else True)"

text \<open>
  The kept lines are sorted by decreasing length (Python's sort is stable, also with
  \<open>reverse=True\<close>, and so is \<open>sort_key\<close>). With two or more kept lines the two longest
  are selected and every line of the content that equals one of them is output, in the
  order of the content, joined by line feeds; with one kept line that line is the result.
\<close>

definition extract_latest_reply :: "unicode_db \<Rightarrow> ustr \<Rightarrow> ustr option" where
  "extract_latest_reply U content =
     (if content = [] then None
      else let lines = reply_lines content in
        if lines = [] then None
        else let filtered_lines = filter (keep_line U) lines in
          if filtered_lines = [] then None
          else let sorted_lines = sort_key (\<lambda>l. - int (length l)) filtered_lines in
            if 2 \<le> length sorted_lines
            then let selected_lines = take 2 sorted_lines;
                     original_order_lines = filter (\<lambda>line. line \<in> set selected_lines) lines
                 in Some (join [10] original_order_lines)
            else (case sorted_lines of [] \<Rightarrow> None | l # _ \<Rightarrow> Some l))"

section \<open>Actuator: \<open>AutoTyper\<close>\<close>

text \<open>
  The two configuration values that \<open>type_message\<close> reads: \<open>typing.use_clipboard\<close>
  (default true) and \<open>typing.max_message_length\<close> (default 2000). The second comes from
  a JSON file and is not validated: it can be an integer of either sign (a JSON boolean
  is an integer in Python), a float, or a value that is no number.
\<close>

datatype config_value = IntValue int | FloatValue real | OtherValue

record typer_config =
  use_clipboard :: bool
  max_message_length :: config_value

definition default_typer_config :: typer_config where
  "default_typer_config = \<lparr>use_clipboard = True, max_message_length = IntValue 2000\<rparr>"

text \<open>
  \<open>re.sub(r'\s+', ' ', message)\<close>: every maximal run of whitespace becomes one space
  (code point 32). The flag says whether the previous character was whitespace.
\<close>

fun collapse_ws :: "bool \<Rightarrow> ustr \<Rightarrow> ustr" where
  "collapse_ws in_run [] = []"
| "collapse_ws in_run (c # cs) =
     (if is_space c then (if in_run then collapse_ws True cs else 32 # collapse_ws True cs)
      else c # collapse_ws False cs)"

text \<open>The class \<open>[\x00-\x08\x0b\x0c\x0e-\x1f\x7f]\<close> that \<open>_clean_message\<close> deletes.\<close>

definition is_removed_control :: "nat \<Rightarrow> bool" where
  "is_removed_control c = (c \<le> 8 \<or> c = 11 \<or> c = 12 \<or> (14 \<le> c \<and> c \<le> 31) \<or> c = 127)"

text \<open>The slice \<open>s[:n]\<close>: a negative \<open>n\<close> counts from the end.\<close>

definition py_prefix :: "int \<Rightarrow> ustr \<Rightarrow> ustr" where
  "py_prefix n s = (if 0 \<le> n then take (nat n) s else take (nat (int (length s) + n)) s)"

text \<open>
  \<open>AutoTyper._clean_message\<close>: collapse whitespace, delete the control characters, cut
  a text longer than the maximum to the maximum and append three dots, strip. With a
  float maximum the comparison works and the slice raises; with a maximum that is no
  number the comparison raises. The \<open>except\<close> branch then returns the variable
  \<open>message\<close> as it is at that point: collapsed and without the control characters,
  neither cut nor stripped.
\<close>

definition clean_message :: "typer_config \<Rightarrow> ustr \<Rightarrow> ustr" where
  "clean_message cfg message =
     (let message1 = collapse_ws False message;
          message2 = filter (\<lambda>c. \<not> is_removed_control c) message1
      in case max_message_length cfg of
           IntValue max_length \<Rightarrow>
             strip (if max_length < int (length message2)
                    then py_prefix max_length message2 @ u ''...'' else message2)
         | FloatValue max_length \<Rightarrow>
             (if max_length < real (length message2) then message2 else strip message2)
         | OtherValue \<Rightarrow> message2)"

text \<open>
  The calls to the input injection library are recorded as a list of actions. Such a
  call can raise; \<open>perform\<close> runs a sequence of calls in which call number \<open>n\<close> (from 0)
  raises, if any does: the calls before it have happened, and the result is false.
\<close>

datatype action =
    Click int int
  | Press string
  | Hotkey string string
  | Write nat
  | ClipboardCopy ustr

definition perform :: "nat option \<Rightarrow> action list \<Rightarrow> bool \<times> action list" where
  "perform raise_at acts =
     (case raise_at of
        None \<Rightarrow> (True, acts)
      | Some n \<Rightarrow> if n < length acts then (False, take n acts) else (True, acts))"

text \<open>
  What one call of \<open>type_message\<close> meets in its environment: the random offsets of click
  attempt \<open>i\<close>, where that attempt raises, the clipboard content read by
  \<open>pyperclip.paste()\<close> (\<open>None\<close> when reading raises), where the clipboard path and the
  character path raise, whether restoring the clipboard raises, and whether the final
  press of the enter key raises.
\<close>

record typer_env =
  click_offset :: "nat \<Rightarrow> int \<times> int"
  click_raises :: "nat \<Rightarrow> nat option"
  paste_result :: "ustr option"
  clipboard_raises :: "nat option"
  restore_raises :: bool
  typing_raises :: "nat option"
  enter_raises :: bool

type_synonym region = "int \<times> int \<times> int \<times> int"

text \<open>\<open>int(h * 0.9)\<close> and the like, for tenths \<open>n\<close>: truncation towards zero.\<close>

definition scale :: "int \<Rightarrow> int \<Rightarrow> int" where
  "scale n h = (if 0 \<le> h then (h * n) div 10 else - ((- h * n) div 10))"

definition click_positions :: "region \<Rightarrow> (int \<times> int) list" where
  "click_positions r =
     (case r of (x, y, width, height) \<Rightarrow>
        [(x + width div 2, y + scale 9 height),
         (x + width div 2, y + scale 8 height),
         (x + scale 2 width, y + scale 9 height),
         (x + scale 8 width, y + scale 9 height)])"

text \<open>
  The loop of \<open>_click_target_region\<close>: an attempt clicks, presses space and backspace,
  and returns true; when one of its calls raises, the next position is tried.
\<close>

fun try_clicks :: "typer_env \<Rightarrow> nat \<Rightarrow> (int \<times> int) list \<Rightarrow> bool \<times> action list" where
  "try_clicks env i [] = (False, [])"
| "try_clicks env i ((click_x, click_y) # ps) =
     (case click_offset env i of (offset_x, offset_y) \<Rightarrow>
        (case perform (click_raises env i)
               [Click (click_x + offset_x) (click_y + offset_y),
                Press ''space'', Press ''backspace''] of
           (True, acts) \<Rightarrow> (True, acts)
         | (False, acts) \<Rightarrow>
             (case try_clicks env (Suc i) ps of (ok, acts') \<Rightarrow> (ok, acts @ acts'))))"

definition click_target_region :: "typer_env \<Rightarrow> region \<Rightarrow> bool \<times> action list" where
  "click_target_region env r = try_clicks env 0 (click_positions r)"

text \<open>
  \<open>_can_use_clipboard\<close>. The special keys are line feed (10), tab (9) and backspace (8);
  the Chinese characters are the code points from U+4E00 to U+9FFF. The test
  \<open>chinese_chars > len(message) * 0.3\<close> is written in integers.
\<close>

definition special_keys :: "(nat \<times> string) list" where
  "special_keys = [(10, ''enter''), (9, ''tab''), (8, ''backspace'')]"

definition chinese_chars :: "ustr \<Rightarrow> nat" where
  "chinese_chars message = length (filter (\<lambda>c. 19968 \<le> c \<and> c \<le> 40959) message)"

definition can_use_clipboard :: "ustr \<Rightarrow> bool" where
  "can_use_clipboard message =
     (if length message < 20 then False
      else if \<exists>char \<in> set message. char \<in> fst ` set special_keys then False
      else if 3 * length message < 10 * chinese_chars message then True
      else if 100 < length message then True
      else False)"

text \<open>
  \<open>_type_with_clipboard\<close>: save the clipboard, copy the message, select all, paste, and
  restore a non-empty saved content; a failure to read or to restore is ignored.
\<close>

definition type_with_clipboard :: "typer_env \<Rightarrow> ustr \<Rightarrow> bool \<times> action list" where
  "type_with_clipboard env message =
     (let original_clipboard = (case paste_result env of None \<Rightarrow> [] | Some c \<Rightarrow> c) in
      case perform (clipboard_raises env)
             [ClipboardCopy message, Hotkey ''ctrl'' ''a'', Hotkey ''ctrl'' ''v''] of
        (True, acts) \<Rightarrow>
          (True, acts @ (if original_clipboard \<noteq> [] \<and> \<not> restore_raises env
                         then [ClipboardCopy original_clipboard] else []))
      | (False, acts) \<Rightarrow> (False, acts))"

text \<open>
  \<open>_type_character_by_character\<close>: select all, delete, then one key press for a special
  key and one written character for any other character.
\<close>

definition char_action :: "nat \<Rightarrow> action" where
  "char_action c = (case map_of special_keys c of Some key \<Rightarrow> Press key | None \<Rightarrow> Write c)"

definition type_character_by_character :: "typer_env \<Rightarrow> ustr \<Rightarrow> bool \<times> action list" where
  "type_character_by_character env message =
     perform (typing_raises env)
       ([Hotkey ''ctrl'' ''a'', Press ''delete''] @ map char_action message)"

text \<open>
  \<open>AutoTyper.type_message\<close>. Every exception is caught and turned into the result
  false; the actions done before it remain done.
\<close>

definition type_message ::
  "typer_config \<Rightarrow> typer_env \<Rightarrow> region \<Rightarrow> ustr \<Rightarrow> bool \<times> action list" where
  "type_message cfg env target_region message =
     (if message = [] \<or> strip message = [] then (False, [])
      else let cleaned_message = clean_message cfg message in
        case click_target_region env target_region of
          (False, acts) \<Rightarrow> (False, acts)
        | (True, acts) \<Rightarrow>
            (case (if use_clipboard cfg \<and> can_use_clipboard cleaned_message
                   then type_with_clipboard env cleaned_message
                   else type_character_by_character env cleaned_message) of
               (True, acts') \<Rightarrow>
                 (if enter_raises env then (False, acts @ acts')
                  else (True, acts @ acts' @ [Press ''enter'']))
             | (False, acts') \<Rightarrow> (False, acts @ acts')))"

text \<open>An environment in which no call raises and the clipboard is empty.\<close>

definition calm_env :: typer_env where
  "calm_env = \<lparr>click_offset = (\<lambda>i. (0, 0)), click_raises = (\<lambda>i. None),
     paste_result = Some [], clipboard_raises = None, restore_raises = False,
     typing_raises = None, enter_raises = False\<rparr>"

section \<open>TextExtractor: \<open>OCRProcessor\<close>\<close>













section \<open>Polling: \<open>MainWindow.wait_for_new_message\<close>\<close>

text \<open>
  One pass of the polling loop sees the stop flag \<open>is_running\<close>, the seconds elapsed
  since the start of the wait, and the text extracted from the screenshot (\<open>None\<close> when
  there is no screenshot or a call raises). The list of polls is what the loop observes,
  in order; after the last recorded poll the flag is taken to be cleared. The wait
  returns the first non-empty text that differs from the last content by a meaningful
  change, and \<open>None\<close> when the flag is cleared or the timeout has elapsed.
\<close>

record poll =
  poll_running :: bool
  poll_elapsed :: real
  poll_content :: "ustr option"

fun wait_for_new_message :: "real \<Rightarrow> ustr \<Rightarrow> poll list \<Rightarrow> ustr option" where
  "wait_for_new_message timeout last_content [] = None"
| "wait_for_new_message timeout last_content (p # ps) =
     (if poll_running p \<and> poll_elapsed p < timeout then
        (case poll_content p of
           None \<Rightarrow> wait_for_new_message timeout last_content ps
         | Some current_content \<Rightarrow>
             if current_content \<noteq> [] \<and> current_content \<noteq> last_content
                \<and> has_meaningful_change last_content current_content
             then Some current_content
             else wait_for_new_message timeout last_content ps)
      else None)"

text \<open>
  A database for texts whose non-ASCII characters have no case and are neither digits
  nor word characters; it serves the concrete examples below.
\<close>

definition caseless_db :: unicode_db where
  "caseless_db = \<lparr>lower_map = (\<lambda>c. [c]), digit_char = (\<lambda>c. False), word_char = (\<lambda>c. False)\<rparr>"

text \<open>The reply line of the end-to-end example.\<close>

definition hello_text :: ustr where
  "hello_text = u ''Hello, how can I help you today friend''"

section \<open>Ledger: \<open>ConversationManager.add_message\<close>\<close>

text \<open>
  The stored messages of the database, the cache of messages not yet saved, the
  \<open>auto_save\<close> setting, and whether the database can be reached: when it cannot, the
  duplicate test answers false and saving leaves the cache as it is. The hash function
  (MD5 of the content) is a parameter.
\<close>

record message =
  msg_session_id :: ustr
  msg_sender :: ustr
  msg_recipient :: ustr
  msg_content :: ustr
  msg_hash :: ustr

record conversation_manager =
  db_messages :: "message list"
  message_cache :: "message list"
  auto_save :: bool
  db_reachable :: bool

definition is_duplicate_message :: "conversation_manager \<Rightarrow> ustr \<Rightarrow> ustr \<Rightarrow> bool" where
  "is_duplicate_message cm session_id message_hash =
     (if db_reachable cm
      then 0 < length (filter (\<lambda>m. msg_session_id m = session_id \<and> msg_hash m = message_hash)
                         (db_messages cm))
      else False)"

definition save_cached_messages :: "conversation_manager \<Rightarrow> conversation_manager" where
  "save_cached_messages cm =
     (if message_cache cm = [] then cm
      else if db_reachable cm
           then cm\<lparr>db_messages := db_messages cm @ message_cache cm, message_cache := []\<rparr>
           else cm)"

definition add_message ::
  "(ustr \<Rightarrow> ustr) \<Rightarrow> conversation_manager \<Rightarrow> ustr \<Rightarrow> ustr \<Rightarrow> ustr \<Rightarrow> ustr
     \<Rightarrow> bool \<times> conversation_manager" where
  "add_message calculate_message_hash cm session_id sender recipient content =
     (let message_hash = calculate_message_hash content in
      if is_duplicate_message cm session_id message_hash then (False, cm)
      else let cm1 = cm\<lparr>message_cache := message_cache cm @
                         [\<lparr>msg_session_id = session_id, msg_sender = sender,
                           msg_recipient = recipient, msg_content = content,
                           msg_hash = message_hash\<rparr>]\<rparr>
           in (True, if auto_save cm1 then save_cached_messages cm1 else cm1))"

section \<open>DialogueFSM: \<open>MainWindow._bridge_loop\<close>\<close>

datatype side = Left | Right

text \<open>
  What the loop does to the outside is recorded as a list of events: the display of the
  observed text (\<open>update_message_display\<close>), the entry of a turn into the transcript
  (\<open>add_conversation_message\<close>), the call of \<open>forward_message_to_side\<close> with its target,
  its message and its result, and the system messages that announce turn \<open>n\<close>, a failed
  forward, the turn cap, and the start and the end of the loop. The calls that write to
  the window are taken not to raise.
\<close>

datatype event =
    MessageDisplay side ustr
  | ConversationMessage side side ustr
  | Forward side ustr bool
  | TurnAnnounced nat side side
  | ForwardFailed side
  | MaxTurnsReached
  | BridgeStarted
  | BridgeEnded

text \<open>
  The configuration of a run: the Unicode tables, the typing configuration, the turn cap
  \<open>conversation.max_length\<close> (default 50, an integer of either sign) and the two
  rectangles.
\<close>

record bridge_config =
  unicode :: unicode_db
  typer :: typer_config
  max_turns :: int
  left_region :: region
  right_region :: region

text \<open>
  What one pass of the outer loop meets: the stop flag at its head, the polls of its
  wait, and the environment of its forward. After the last recorded pass the flag is
  taken to be cleared.
\<close>

record iteration =
  it_running :: bool
  it_polls :: "poll list"
  it_typer :: typer_env

record bridge_state =
  current_speaker :: side
  last_left_content :: ustr
  last_right_content :: ustr
  conversation_turn :: nat
  events :: "event list"

definition initial_state :: bridge_state where
  "initial_state = \<lparr>current_speaker = Left, last_left_content = [], last_right_content = [],
     conversation_turn = 0, events = [BridgeStarted]\<rparr>"

text \<open>\<open>forward_message_to_side\<close>: the result of \<open>type_message\<close> on the target's rectangle.\<close>

definition forward_message_to_side ::
  "bridge_config \<Rightarrow> typer_env \<Rightarrow> side \<Rightarrow> ustr \<Rightarrow> bool" where
  "forward_message_to_side cfg env target_side message =
     fst (type_message (typer cfg) env
            (if target_side = Right then right_region cfg else left_region cfg) message)"

definition last_content :: "bridge_state \<Rightarrow> side \<Rightarrow> ustr" where
  "last_content st s = (if s = Left then last_left_content st else last_right_content st)"

definition set_last_content :: "bridge_state \<Rightarrow> side \<Rightarrow> ustr \<Rightarrow> bridge_state" where
  "set_last_content st s content =
     (if s = Left then st\<lparr>last_left_content := content\<rparr>
      else st\<lparr>last_right_content := content\<rparr>)"

text \<open>
  The two branches of the loop body are the same code with the sides exchanged;
  \<open>relay_turn\<close> is that code for a speaker and a listener. It waits for a new message
  of the speaker with the timeout of 60 seconds. Without one nothing changes. With one
  it stores and displays it and extracts the latest reply; a reply is entered into the
  transcript and forwarded to the listener; on success the speaker changes and the turn
  counter goes up by one, on failure the loop is left (the second component is true).
\<close>

definition relay_turn ::
  "bridge_config \<Rightarrow> iteration \<Rightarrow> bridge_state \<Rightarrow> side \<Rightarrow> side \<Rightarrow> bridge_state \<times> bool" where
  "relay_turn cfg w st speaker listener =
     (case wait_for_new_message 60 (last_content st speaker) (it_polls w) of
        None \<Rightarrow> (st, False)
      | Some new_message \<Rightarrow>
          if new_message = [] then (st, False)
          else
            (let st1 = (set_last_content st speaker new_message)
                         \<lparr>events := events st @ [MessageDisplay speaker new_message]\<rparr> in
             case extract_latest_reply (unicode cfg) new_message of
               None \<Rightarrow> (st1, False)
             | Some latest_reply \<Rightarrow>
                 if latest_reply = [] then (st1, False)
                 else
                   (let st2 = st1\<lparr>events := events st1 @
                                   [ConversationMessage speaker listener latest_reply]\<rparr> in
                    if forward_message_to_side cfg (it_typer w) listener latest_reply
                    then (st2\<lparr>current_speaker := listener,
                               conversation_turn := Suc (conversation_turn st2),
                               events := events st2 @
                                 [Forward listener latest_reply True,
                                  TurnAnnounced (Suc (conversation_turn st2)) speaker listener]\<rparr>,
                          False)
                    else (st2\<lparr>events := events st2 @
                                 [Forward listener latest_reply False, ForwardFailed listener]\<rparr>,
                          True))))"

text \<open>One pass of the loop body: the branch of the current speaker, then the cap test.\<close>

definition bridge_iteration ::
  "bridge_config \<Rightarrow> iteration \<Rightarrow> bridge_state \<Rightarrow> bridge_state \<times> bool" where
  "bridge_iteration cfg w st =
     (case (if current_speaker st = Left then relay_turn cfg w st Left Right
            else relay_turn cfg w st Right Left) of
        (st', True) \<Rightarrow> (st', True)
      | (st', False) \<Rightarrow>
          if max_turns cfg \<le> int (conversation_turn st')
          then (st'\<lparr>events := events st' @ [MaxTurnsReached]\<rparr>, True)
          else (st', False))"

definition bridge_end :: "bridge_state \<Rightarrow> bridge_state" where
  "bridge_end st = st\<lparr>events := events st @ [BridgeEnded]\<rparr>"

text \<open>
  The loop \<open>while self.is_running and conversation_turn < max_turns\<close>, over the recorded
  passes.
\<close>

fun bridge_loop :: "bridge_config \<Rightarrow> iteration list \<Rightarrow> bridge_state \<Rightarrow> bridge_state" where
  "bridge_loop cfg [] st = bridge_end st"
| "bridge_loop cfg (w # ws) st =
     (if it_running w \<and> int (conversation_turn st) < max_turns cfg then
        (case bridge_iteration cfg w st of
           (st', True) \<Rightarrow> bridge_end st'
         | (st', False) \<Rightarrow> bridge_loop cfg ws st')
      else bridge_end st)"

text \<open>Reading the events: the announced turns, the transcript entries, the forwards.\<close>

fun is_turn :: "event \<Rightarrow> bool" where
  "is_turn (TurnAnnounced n a b) = True"
| "is_turn e = False"

fun is_commit :: "event \<Rightarrow> bool" where
  "is_commit (ConversationMessage a b m) = True"
| "is_commit e = False"

fun is_delivered :: "event \<Rightarrow> bool" where
  "is_delivered (Forward a m ok) = ok"
| "is_delivered e = False"

fun is_failed :: "event \<Rightarrow> bool" where
  "is_failed (Forward a m ok) = (\<not> ok)"
| "is_failed e = False"

text \<open>
  For the examples: the configuration with the defaults and two rectangles side by side,
  a wait in which nothing appears and the timeout elapses, and a pass in which the
  reply of the end-to-end example appears and the forward succeeds.
\<close>

definition example_config :: bridge_config where
  "example_config = \<lparr>unicode = caseless_db, typer = default_typer_config, max_turns = 50,
     left_region = (0, 0, 800, 600), right_region = (800, 0, 800, 600)\<rparr>"

definition timeout_pass :: iteration where
  "timeout_pass = \<lparr>it_running = True,
     it_polls = [\<lparr>poll_running = True, poll_elapsed = 0, poll_content = Some []\<rparr>,
                 \<lparr>poll_running = True, poll_elapsed = 57, poll_content = None\<rparr>,
                 \<lparr>poll_running = True, poll_elapsed = 60, poll_content = Some hello_text\<rparr>],
     it_typer = calm_env\<rparr>"

definition hello_pass :: iteration where
  "hello_pass = \<lparr>it_running = True,
     it_polls = [\<lparr>poll_running = True, poll_elapsed = 0, poll_content = Some hello_text\<rparr>],
     it_typer = calm_env\<rparr>"

text \<open>
  For the examples: an empty, reachable ledger that saves at once, the session name
  \<open>s1\<close>, and the content itself in the place of its hash.
\<close>

definition empty_ledger :: conversation_manager where
  "empty_ledger = \<lparr>db_messages = [], message_cache = [], auto_save = True,
     db_reachable = True\<rparr>"

definition content_hash :: "ustr \<Rightarrow> ustr" where
  "content_hash content = content"

text \<open>
  The ledger after the left turn of the example was stored, and the state of the loop
  after that turn was relayed.
\<close>

definition hello_ledger :: conversation_manager where
  "hello_ledger =
     snd (add_message content_hash empty_ledger (u ''s1'') (u ''left'') (u ''right'') hello_text)"

definition after_first_turn :: bridge_state where
  "after_first_turn = \<lparr>current_speaker = Right, last_left_content = hello_text,
     last_right_content = [], conversation_turn = 1,
     events = [BridgeStarted, MessageDisplay Left hello_text,
               ConversationMessage Left Right hello_text, Forward Right hello_text True,
               TurnAnnounced 1 Left Right]\<rparr>"

text \<open>
  An environment in which every click attempt raises at its first call, and a pass in
  which the reply of the example appears and the forward fails.
\<close>

definition failing_env :: typer_env where
  "failing_env = \<lparr>click_offset = (\<lambda>i. (0, 0)), click_raises = (\<lambda>i. Some 0),
     paste_result = Some [], clipboard_raises = None, restore_raises = False,
     typing_raises = None, enter_raises = False\<rparr>"

definition hello_fail_pass :: iteration where
  "hello_fail_pass = \<lparr>it_running = True,
     it_polls = [\<lparr>poll_running = True, poll_elapsed = 0, poll_content = Some hello_text\<rparr>],
     it_typer = failing_env\<rparr>"

text \<open>
  The announcements of the turns 1 to \<open>n\<close> of a dialogue that the left side opens, and
  the invariant of the loop: the speaker is the left side exactly at an even turn
  counter, the announced turns are those of the counter, the counter is the number of
  successful forwards, and the transcript has one entry for every forward, \<open>f\<close> of which
  failed.
\<close>

definition turns_upto :: "nat \<Rightarrow> event list" where
  "turns_upto n =
     map (\<lambda>k. TurnAnnounced (Suc k) (if even k then Left else Right)
                 (if even k then Right else Left)) [0..<n]"

definition loop_inv :: "nat \<Rightarrow> bridge_state \<Rightarrow> bool" where
  "loop_inv f st =
     (current_speaker st = (if even (conversation_turn st) then Left else Right)
      \<and> filter is_turn (events st) = turns_upto (conversation_turn st)
      \<and> length (filter is_delivered (events st)) = conversation_turn st
      \<and> length (filter is_commit (events st)) = conversation_turn st + f
      \<and> length (filter is_failed (events st)) = f)"

text \<open>
  The condition for bulk delivery as the specification words it: the text is long, or
  has a high share of Chinese characters, or contains no special key character.
\<close>

definition spec_bulk_mode :: "ustr \<Rightarrow> bool" where
  "spec_bulk_mode message =
     (100 < length message \<or> 3 * length message < 10 * chinese_chars message
      \<or> \<not> (\<exists>char \<in> set message. char \<in> fst ` set special_keys))"

text \<open>A message of 22 characters, 21 of them Chinese.\<close>

definition chinese_text :: ustr where
  "chinese_text = [20320, 22909, 65292, 35831, 38382, 20170, 22825, 25105, 21487, 20197,
     24590, 26679, 24110, 21161, 20320, 35299, 20915, 36825, 20010, 38382, 39064, 21602]"

text \<open>A configuration with a maximal message length of 5, for a short example.\<close>

definition short_typer_config :: typer_config where
  "short_typer_config = \<lparr>use_clipboard = True, max_message_length = IntValue 5\<rparr>"







section \<open>Properties\<close>

text \<open>
  C7. Change detection never fires on an identical re-observation: for every text \<open>x\<close>,
  \<open>has_meaningful_change x x\<close> is false.
\<close>

theorem has_meaningful_change_same: "\<not> has_meaningful_change x x"
  by (simp add: has_meaningful_change_def)

subsection \<open>Turn extraction\<close>

lemma startswith_append: "startswith (k @ b) k"
  by (induction k) auto

lemma py_in_startswith: "startswith s k \<Longrightarrow> py_in k s"
  by (cases s) (auto elim: startswith.elims)

lemma py_in_append: "py_in k (a @ k @ b)"
  by (induction a) (auto simp: py_in_startswith startswith_append)

lemma py_lower_append: "py_lower U (a @ b) = py_lower U a @ py_lower U b"
  by (simp add: py_lower_def)

lemma keep_line_denylisted:
  assumes "k \<in> set filter_keywords" and "py_lower U v = k"
  shows "\<not> keep_line U (a @ v @ b)"
proof -
  have "py_in k (py_lower U (a @ v @ b))"
    using assms(2) by (simp add: py_lower_append py_in_append)
  with assms(1) show ?thesis
    unfolding keep_line_def Let_def by (meson)
qed

lemma split_on_no_sep: "sep \<notin> set l \<Longrightarrow> split_on sep l = [l]"
  by (induction l) auto

lemma split_on_ne: "split_on sep s \<noteq> []"
  by (induction s) (auto split: list.splits)

lemma split_on_append_sep:
  "sep \<notin> set l \<Longrightarrow> split_on sep (l @ sep # rest) = l # split_on sep rest"
  by (induction l) (auto)

lemma split_on_join:
  "ls \<noteq> [] \<Longrightarrow> \<forall>l \<in> set ls. sep \<notin> set l \<Longrightarrow> split_on sep (join [sep] ls) = ls"
proof (induction ls)
  case Nil
  then show ?case by simp
next
  case (Cons p ps)
  show ?case
  proof (cases ps)
    case Nil
    with Cons.prems show ?thesis by (simp add: split_on_no_sep)
  next
    case (Cons q qs)
    with Cons.IH Cons.prems have "split_on sep (join [sep] ps) = ps" by simp
    with Cons Cons.prems show ?thesis
      using split_on_append_sep[of sep p "join [sep] ps"] by simp
  qed
qed

lemma split_on_pieces: "l \<in> set (split_on sep s) \<Longrightarrow> sep \<notin> set l"
proof (induction s arbitrary: l)
  case Nil then show ?case by simp
next
  case (Cons c cs)
  then show ?case
    by (cases "split_on sep cs") (auto split: if_splits simp: split_on_ne)
qed

lemma set_strip: "set (strip l) \<subseteq> set l"
  unfolding strip_def
  by (metis set_dropWhileD set_rev subsetI)

lemma reply_lines_no_lf: "l \<in> set (reply_lines c) \<Longrightarrow> 10 \<notin> set l"
  unfolding reply_lines_def using split_on_pieces set_strip by fastforce

lemma extract_latest_reply_lines:
  assumes "extract_latest_reply U content = Some r" and "l \<in> set (split_on 10 r)"
  shows "keep_line U l \<and> l \<in> set (reply_lines content)"
proof -
  let ?lines = "reply_lines content"
  let ?f = "filter (keep_line U) ?lines"
  let ?s = "sort_key (\<lambda>l. - int (length l)) ?f"
  from assms(1) have ne: "?f \<noteq> []"
    by (auto simp: extract_latest_reply_def Let_def split: if_splits)
  show ?thesis
  proof (cases "2 \<le> length ?s")
    case True
    let ?o = "filter (\<lambda>line. line \<in> set (take 2 ?s)) ?lines"
    from assms(1) True ne have r: "r = join [10] ?o"
      by (auto simp: extract_latest_reply_def Let_def split: if_splits)
    have sub: "set (take 2 ?s) \<subseteq> set ?f"
      using set_take_subset[of 2 ?s] by simp
    have "?s \<noteq> []" using ne by (metis length_sort list.size(3) length_0_conv)
    then obtain x where "x \<in> set (take 2 ?s)"
      by (cases ?s) auto
    with sub have "x \<in> set ?o" by auto
    then have one: "?o \<noteq> []" by (metis empty_iff list.set(1))
    have "\<forall>l \<in> set ?o. 10 \<notin> set l" using reply_lines_no_lf by auto
    with one r have "split_on 10 r = ?o" by (simp add: split_on_join)
    with assms(2) sub show ?thesis by auto
  next
    case False
    with assms(1) ne obtain x xs where s: "?s = x # xs" and r: "r = x"
      by (auto simp: extract_latest_reply_def Let_def split: if_splits list.splits)
    have "x \<in> set ?s" using s by simp
    then have x: "x \<in> set ?f" by simp
    then have "10 \<notin> set x" using reply_lines_no_lf by auto
    with r assms(2) have "l = x" by (simp add: split_on_no_sep)
    with x show ?thesis by auto
  qed
qed

lemma hello_text_lines: "reply_lines hello_text = [hello_text]"
  by (simp add: reply_lines_def hello_text_def u_def strip_def is_space_def)

lemma keep_line_hello: "keep_line caseless_db hello_text"
  by (simp add: keep_line_def filter_keywords_def hello_text_def u_def py_lower_def
      lower_char_def caseless_db_def isdigit_def is_digit_def is_space_def endswith_def)

lemma extract_hello: "extract_latest_reply caseless_db hello_text = Some hello_text"
proof -
  have "hello_text \<noteq> []" by (simp add: hello_text_def u_def)
  then show ?thesis
    by (simp add: extract_latest_reply_def hello_text_lines keep_line_hello)
qed

text \<open>
  C8. Turn extraction drops every line that contains a denylisted token, whatever the
  letter case of the token in the line: a line \<open>a @ v @ b\<close> in which \<open>v\<close> lower-cases to
  a keyword of the denylist is never kept, and no line of an extracted reply contains
  such a \<open>v\<close>. In particular \<open>Typing a response now...\<close> has at least 8 characters and
  at least 3 tokens, and yet nothing is extracted from it.
\<close>

theorem extract_latest_reply_denylist:
  "(\<forall>k \<in> set filter_keywords. \<forall>v a b. py_lower U v = k \<longrightarrow> \<not> keep_line U (a @ v @ b))
   \<and> (\<forall>k \<in> set filter_keywords. \<forall>v a b r. py_lower U v = k \<and>
          extract_latest_reply U content = Some r \<longrightarrow> a @ v @ b \<notin> set (split_on 10 r))
   \<and> 8 \<le> length (u ''Typing a response now...'')
   \<and> 3 \<le> count_tokens False (u ''Typing a response now...'')
   \<and> py_lower U (u ''Typing'') \<in> set filter_keywords
   \<and> extract_latest_reply U (u ''Typing a response now...'') = None"
proof (intro conjI)
  show "\<forall>k \<in> set filter_keywords. \<forall>v a b. py_lower U v = k \<longrightarrow> \<not> keep_line U (a @ v @ b)"
    using keep_line_denylisted by blast
  show "\<forall>k \<in> set filter_keywords. \<forall>v a b r. py_lower U v = k \<and>
          extract_latest_reply U content = Some r \<longrightarrow> a @ v @ b \<notin> set (split_on 10 r)"
    using keep_line_denylisted extract_latest_reply_lines by blast
  show "8 \<le> length (u ''Typing a response now...'')"
    by (simp add: u_def)
  show "3 \<le> count_tokens False (u ''Typing a response now...'')"
    by (simp add: u_def is_space_def)
  show low: "py_lower U (u ''Typing'') \<in> set filter_keywords"
    by (simp add: py_lower_def lower_char_def u_def filter_keywords_def)
  have "u ''Typing a response now...'' = [] @ u ''Typing'' @ u '' a response now...''"
    by (simp add: u_def)
  with low have "\<not> keep_line U (u ''Typing a response now...'')"
    using keep_line_denylisted by metis
  moreover have "reply_lines (u ''Typing a response now...'') = [u ''Typing a response now...'']"
    by (simp add: reply_lines_def u_def strip_def is_space_def)
  ultimately show "extract_latest_reply U (u ''Typing a response now...'') = None"
    by (simp add: extract_latest_reply_def)
qed

theorem extract_latest_reply_denylist_witness:
  "u ''typing'' \<in> set filter_keywords
   \<and> py_lower caseless_db (u ''TYPING'') = u ''typing''
   \<and> \<not> keep_line caseless_db (u ''Now '' @ u ''TYPING'' @ u '' a response for you'')
   \<and> extract_latest_reply caseless_db hello_text = Some hello_text
   \<and> u ''Now '' @ u ''TYPING'' @ u '' a response for you'' \<notin> set (split_on 10 hello_text)"
proof -
  have k: "u ''typing'' \<in> set filter_keywords"
    by (simp add: filter_keywords_def)
  have v: "py_lower caseless_db (u ''TYPING'') = u ''typing''"
    by (simp add: py_lower_def lower_char_def u_def)
  from extract_latest_reply_denylist [of caseless_db hello_text] k v extract_hello
  show ?thesis by blast
qed

subsection \<open>Delivery\<close>

lemma dropWhile_all: "\<forall>c \<in> set s. P c \<Longrightarrow> dropWhile P s = []"
  by (induction s) auto

lemma strip_blank: "\<forall>c \<in> set message. is_space c \<Longrightarrow> strip message = []"
  by (simp add: strip_def dropWhile_all)

text \<open>
  C9. For every target rectangle, configuration and environment, \<open>type_message\<close> called
  with an empty message or one that consists of whitespace only returns false and has
  performed no action: no click, no key press, no clipboard access.
\<close>

theorem type_message_blank:
  "\<forall>c \<in> set message. is_space c \<Longrightarrow> type_message cfg env target_region message = (False, [])"
  by (simp add: type_message_def strip_blank)

theorem type_message_blank_witness:
  "is_space 32 \<and> is_space 9
   \<and> type_message default_typer_config calm_env (0, 0, 800, 600) [32, 9, 32] = (False, [])"
  using type_message_blank [of "[32, 9, 32]" default_typer_config calm_env "(0, 0, 800, 600)"]
  by (simp add: is_space_def)

lemma type_message_dispatch:
  assumes "strip message \<noteq> []" and "click_target_region env r = (True, acts)"
  shows "\<exists>ok. type_message cfg env r message =
          (ok, acts
               @ snd (if use_clipboard cfg \<and> can_use_clipboard (clean_message cfg message)
                      then type_with_clipboard env (clean_message cfg message)
                      else type_character_by_character env (clean_message cfg message))
               @ (if ok then [Press ''enter''] else []))"
proof -
  from assms(1) have ne: "message \<noteq> []" by (auto simp: strip_def)
  obtain ok' acts' where inj:
    "(if use_clipboard cfg \<and> can_use_clipboard (clean_message cfg message)
      then type_with_clipboard env (clean_message cfg message)
      else type_character_by_character env (clean_message cfg message)) = (ok', acts')"
    by (cases "(if use_clipboard cfg \<and> can_use_clipboard (clean_message cfg message)
      then type_with_clipboard env (clean_message cfg message)
      else type_character_by_character env (clean_message cfg message))") 
  show ?thesis
    using assms ne inj
    unfolding type_message_def Let_def
    by (cases ok'; cases "enter_raises env") auto
qed

lemma can_use_clipboard_iff:
  "can_use_clipboard message \<longleftrightarrow>
     20 \<le> length message \<and> (\<forall>c \<in> set message. c \<noteq> 10 \<and> c \<noteq> 9 \<and> c \<noteq> 8)
     \<and> (3 * length message < 10 * chinese_chars message \<or> 100 < length message)"
  by (auto simp: can_use_clipboard_def special_keys_def)

lemma click_calm: "click_target_region calm_env (0, 0, 800, 600)
    = (True, [Click 400 540, Press ''space'', Press ''backspace''])"
  by (simp add: click_target_region_def click_positions_def calm_env_def perform_def scale_def)

lemma calm_env_fields:
  "paste_result calm_env = Some []" "clipboard_raises calm_env = None"
  "\<not> restore_raises calm_env" "typing_raises calm_env = None" "\<not> enter_raises calm_env"
  by (simp_all add: calm_env_def)

lemma clean_hello: "clean_message default_typer_config hello_text = hello_text"
  by (simp add: clean_message_def default_typer_config_def hello_text_def u_def
      is_space_def is_removed_control_def strip_def)

lemma clean_chinese: "clean_message default_typer_config chinese_text = chinese_text"
  by (simp add: clean_message_def default_typer_config_def chinese_text_def
      is_space_def is_removed_control_def strip_def)

lemma strip_hello: "strip hello_text = hello_text"
  by (simp add: hello_text_def u_def is_space_def strip_def)

lemma strip_chinese: "strip chinese_text = chinese_text"
  by (simp add: chinese_text_def is_space_def strip_def)

lemma hello_not_clipboard: "\<not> can_use_clipboard hello_text"
  by (simp add: can_use_clipboard_iff chinese_chars_def hello_text_def u_def)

lemma chinese_clipboard: "can_use_clipboard chinese_text"
  by (simp add: can_use_clipboard_iff chinese_chars_def chinese_text_def)

lemma spec_bulk_hello: "spec_bulk_mode hello_text"
  by (simp add: spec_bulk_mode_def special_keys_def hello_text_def u_def)

lemma type_message_hello:
  "type_message default_typer_config calm_env (0, 0, 800, 600) hello_text =
     (True, [Click 400 540, Press ''space'', Press ''backspace'', Hotkey ''ctrl'' ''a'',
             Press ''delete''] @ map char_action hello_text @ [Press ''enter''])"
proof -
  have "hello_text \<noteq> []" by (simp add: hello_text_def u_def)
  then show ?thesis
    by (simp add: type_message_def strip_hello clean_hello click_calm hello_not_clipboard
        type_character_by_character_def perform_def calm_env_fields)
qed

text \<open>
  The claim C5 as it is worded fails: the text of the end-to-end example contains no
  special key character, so the worded condition asks for the bulk mode, and yet it has
  fewer than 101 characters and no Chinese character, and is typed character by
  character.
\<close>

theorem bulk_mode_counterexample:
  "spec_bulk_mode hello_text \<and> \<not> can_use_clipboard hello_text
   \<and> type_message default_typer_config calm_env (0, 0, 800, 600) hello_text =
     (True, [Click 400 540, Press ''space'', Press ''backspace'', Hotkey ''ctrl'' ''a'',
             Press ''delete''] @ map char_action hello_text @ [Press ''enter''])"
  using spec_bulk_hello hello_not_clipboard type_message_hello by blast

text \<open>
  C5, amended. \<open>_can_use_clipboard\<close> holds exactly when the text has at least 20
  characters, none of them a special key character (line feed, tab, backspace), and
  either more than 30 percent of its characters are Chinese or it has more than 100
  characters. After a successful click, \<open>type_message\<close> delivers the cleaned message in
  bulk through the clipboard exactly when the clipboard is enabled and that condition
  holds of the cleaned message, and character by character in every other case.
\<close>

theorem bulk_mode_choice:
  "(can_use_clipboard message \<longleftrightarrow>
      20 \<le> length message \<and> (\<forall>c \<in> set message. c \<noteq> 10 \<and> c \<noteq> 9 \<and> c \<noteq> 8)
      \<and> (3 * length message < 10 * chinese_chars message \<or> 100 < length message))
   \<and> (strip message \<noteq> [] \<and> click_target_region env r = (True, acts) \<longrightarrow>
        (\<exists>ok. type_message cfg env r message =
          (ok, acts
               @ snd (if use_clipboard cfg \<and> can_use_clipboard (clean_message cfg message)
                      then type_with_clipboard env (clean_message cfg message)
                      else type_character_by_character env (clean_message cfg message))
               @ (if ok then [Press ''enter''] else []))))"
  using can_use_clipboard_iff type_message_dispatch by blast

theorem bulk_mode_choice_witness:
  "strip chinese_text \<noteq> []
   \<and> click_target_region calm_env (0, 0, 800, 600)
       = (True, [Click 400 540, Press ''space'', Press ''backspace''])
   \<and> can_use_clipboard chinese_text
   \<and> (\<exists>ok. type_message default_typer_config calm_env (0, 0, 800, 600) chinese_text =
          (ok, [Click 400 540, Press ''space'', Press ''backspace'']
               @ [ClipboardCopy chinese_text, Hotkey ''ctrl'' ''a'', Hotkey ''ctrl'' ''v'']
               @ (if ok then [Press ''enter''] else [])))"
proof -
  have s: "strip chinese_text \<noteq> []"
    by (simp add: strip_chinese) (simp add: chinese_text_def)
  have t: "snd (type_with_clipboard calm_env chinese_text)
      = [ClipboardCopy chinese_text, Hotkey ''ctrl'' ''a'', Hotkey ''ctrl'' ''v'']"
    by (simp add: type_with_clipboard_def perform_def calm_env_fields)
  have c: "use_clipboard default_typer_config" by (simp add: default_typer_config_def)
  from bulk_mode_choice [of chinese_text calm_env "(0, 0, 800, 600)"
      "[Click 400 540, Press ''space'', Press ''backspace'']" default_typer_config]
    s click_calm chinese_clipboard t c
  show ?thesis by (simp add: clean_chinese)
qed

subsection \<open>Message cleaning\<close>

lemma collapse_ws_space: "c \<in> set (collapse_ws f s) \<Longrightarrow> is_space c \<Longrightarrow> c = 32"
  by (induction s arbitrary: f) (auto split: if_splits)

lemma collapse_ws_subset: "c \<in> set (collapse_ws f s) \<Longrightarrow> c = 32 \<or> c \<in> set s"
  by (induction s arbitrary: f) (auto split: if_splits)

lemma collapse_ws_True_hd: "collapse_ws True s = c # rest \<Longrightarrow> \<not> is_space c"
  by (induction s) (auto split: if_splits)

lemma collapse_ws_no_run:
  "collapse_ws f s = a @ c # d # b \<Longrightarrow> \<not> (is_space c \<and> is_space d)"
proof (induction s arbitrary: f a)
  case Nil
  then show ?case by simp
next
  case (Cons x xs)
  show ?case
  proof (cases "is_space x")
    case True
    show ?thesis
    proof (cases f)
      case True
      with \<open>is_space x\<close> Cons.prems have "collapse_ws True xs = a @ c # d # b" by simp
      then show ?thesis by (rule Cons.IH)
    next
      case False
      with \<open>is_space x\<close> Cons.prems have e: "32 # collapse_ws True xs = a @ c # d # b" by simp
      show ?thesis
      proof (cases a)
        case Nil
        with e have "collapse_ws True xs = d # b" by simp
        then show ?thesis using collapse_ws_True_hd by blast
      next
        case (Cons y ys)
        with e have "collapse_ws True xs = ys @ c # d # b" by simp
        then show ?thesis by (rule Cons.IH)
      qed
    qed
  next
    case False
    with Cons.prems have e: "x # collapse_ws False xs = a @ c # d # b" by simp
    show ?thesis
    proof (cases a)
      case Nil
      with e have "c = x" by simp
      with False show ?thesis by simp
    next
      case (Cons y ys)
      with e have "collapse_ws False xs = ys @ c # d # b" by simp
      then show ?thesis by (rule Cons.IH)
    qed
  qed
qed

lemma length_strip: "length (strip s) \<le> length s"
proof -
  have "length (strip s) \<le> length (dropWhile is_space s)"
    unfolding strip_def
    using length_dropWhile_le [of is_space "rev (dropWhile is_space s)"] by simp
  also have "\<dots> \<le> length s" by (rule length_dropWhile_le)
  finally show ?thesis .
qed

lemma strip_infix: "\<exists>a b. s = a @ strip s @ b"
proof -
  let ?d = "dropWhile is_space s"
  let ?r = "rev ?d"
  have "takeWhile is_space ?r @ dropWhile is_space ?r = ?r"
    by (rule takeWhile_dropWhile_id)
  then have "rev (takeWhile is_space ?r @ dropWhile is_space ?r) = rev ?r" by (rule arg_cong)
  then have "rev (dropWhile is_space ?r) @ rev (takeWhile is_space ?r) = ?d"
    by (simp only: rev_append rev_rev_ident)
  then have d: "?d = strip s @ rev (takeWhile is_space ?r)"
    by (simp only: strip_def)
  have "s = takeWhile is_space s @ ?d" by simp
  with d have "s = takeWhile is_space s @ strip s @ rev (takeWhile is_space ?r)"
    by simp
  then show ?thesis by blast
qed

lemma low_char_class: "c < 32 \<Longrightarrow> is_removed_control c \<or> is_space c"
  unfolding is_removed_control_def is_space_def by arith

lemma del_not_space: "\<not> is_space 127" and dot_not_space: "\<not> is_space 46"
  and space_is_space: "is_space 32"
  by (simp_all add: is_space_def)

lemma message2_chars:
  assumes "c \<in> set (filter (\<lambda>c. \<not> is_removed_control c) (collapse_ws False message))"
  shows "32 \<le> c \<and> c \<noteq> 127 \<and> (is_space c \<longrightarrow> c = 32)"
proof -
  from assms have n: "\<not> is_removed_control c" and m: "c \<in> set (collapse_ws False message)"
    by auto
  from m have s: "is_space c \<longrightarrow> c = 32" using collapse_ws_space by blast
  have "32 \<le> c"
  proof (rule ccontr)
    assume "\<not> 32 \<le> c"
    then have "c < 32" by simp
    with n have "is_space c" using low_char_class by blast
    with s \<open>c < 32\<close> show False by simp
  qed
  moreover from n have "c \<noteq> 127" by (auto simp: is_removed_control_def)
  ultimately show ?thesis using s by simp
qed

lemma set_py_prefix: "set (py_prefix n s) \<subseteq> set s"
  by (auto simp: py_prefix_def dest: in_set_takeD)

lemma dots: "u ''...'' = [46, 46, 46]"
  by (simp add: u_def)

lemma clean_message_set:
  "set (clean_message cfg message)
     \<subseteq> set (filter (\<lambda>c. \<not> is_removed_control c) (collapse_ws False message)) \<union> {46}"
proof -
  let ?m2 = "filter (\<lambda>c. \<not> is_removed_control c) (collapse_ws False message)"
  show ?thesis
  proof (cases "max_message_length cfg")
    case (IntValue n)
    then have "clean_message cfg message
        = strip (if n < int (length ?m2) then py_prefix n ?m2 @ [46, 46, 46] else ?m2)"
      by (simp add: clean_message_def dots)
    moreover have "set (if n < int (length ?m2) then py_prefix n ?m2 @ [46, 46, 46] else ?m2)
        \<subseteq> set ?m2 \<union> {46}"
      using set_py_prefix [of n ?m2] by auto
    ultimately show ?thesis
      using set_strip [of "if n < int (length ?m2) then py_prefix n ?m2 @ [46, 46, 46] else ?m2"]
      by auto
  next
    case (FloatValue x)
    then have "clean_message cfg message = (if x < real (length ?m2) then ?m2 else strip ?m2)"
      by (simp add: clean_message_def)
    then show ?thesis
      using set_strip [of ?m2] by (cases "x < real (length ?m2)") auto
  next
    case OtherValue
    then show ?thesis by (auto simp: clean_message_def)
  qed
qed

lemma clean_message_chars:
  assumes "c \<in> set (clean_message cfg message)"
  shows "32 \<le> c \<and> c \<noteq> 127 \<and> (is_space c \<longrightarrow> c = 32)"
proof -
  from assms clean_message_set
  have "c \<in> set (filter (\<lambda>c. \<not> is_removed_control c) (collapse_ws False message)) \<or> c = 46"
    by blast
  then show ?thesis
    using message2_chars dot_not_space by auto
qed

lemma clean_message_int:
  assumes "max_message_length cfg = IntValue n" and "0 \<le> n"
  shows "clean_message cfg message =
     strip (let message2 = filter (\<lambda>c. \<not> (c \<le> 8 \<or> c = 11 \<or> c = 12 \<or> (14 \<le> c \<and> c \<le> 31) \<or> c = 127))
                             (collapse_ws False message)
            in if nat n < length message2 then take (nat n) message2 @ [46, 46, 46]
               else message2)"
proof -
  have e: "(\<lambda>c. \<not> is_removed_control c)
      = (\<lambda>c. \<not> (c \<le> 8 \<or> c = 11 \<or> c = 12 \<or> (14 \<le> c \<and> c \<le> 31) \<or> c = 127))"
    by (simp add: is_removed_control_def)
  from assms(2) have "\<And>k. (n < int k) = (nat n < k)" by auto
  with assms show ?thesis
    unfolding clean_message_def Let_def e by (simp add: py_prefix_def dots)
qed

lemma clean_message_length:
  assumes "max_message_length cfg = IntValue n" and "0 \<le> n"
  shows "length (clean_message cfg message) \<le> nat n + 3"
proof -
  let ?m2 = "filter (\<lambda>c. \<not> (c \<le> 8 \<or> c = 11 \<or> c = 12 \<or> (14 \<le> c \<and> c \<le> 31) \<or> c = 127))
                             (collapse_ws False message)"
  let ?t = "if nat n < length ?m2 then take (nat n) ?m2 @ [46, 46, 46] else ?m2"
  have "clean_message cfg message = strip ?t"
    using clean_message_int [OF assms] by (simp add: Let_def)
  moreover have "length ?t \<le> nat n + 3" by simp
  ultimately show ?thesis using length_strip [of ?t] by simp
qed

lemma pair_in_prefix: "take k xs = a @ c # d # b \<Longrightarrow> \<exists>b'. xs = a @ c # d # b'"
proof -
  assume "take k xs = a @ c # d # b"
  then have "xs = (a @ c # d # b) @ drop k xs"
    using append_take_drop_id [of k xs] by simp
  then have "xs = a @ c # d # (b @ drop k xs)" by simp
  then show ?thesis by blast
qed

lemma pair_before_dots:
  "xs @ [46, 46, 46] = a @ 32 # 32 # b \<Longrightarrow> \<exists>a' b'. xs = a' @ (32::nat) # 32 # b'"
proof (induction xs arbitrary: a)
  case Nil
  then show ?case by (auto simp: Cons_eq_append_conv)
next
  case (Cons x xs)
  show ?case
  proof (cases a)
    case Nil
    with Cons.prems have x: "x = 32" and r: "xs @ [46, 46, 46] = 32 # b" by simp_all
    from r obtain ys where "xs = 32 # ys" by (cases xs) auto
    with x have "x # xs = [] @ 32 # 32 # ys" by simp
    then show ?thesis by blast
  next
    case (Cons y ys)
    with Cons.prems have "xs @ [46, 46, 46] = ys @ 32 # 32 # b" by simp
    then obtain a' b' where "xs = a' @ 32 # 32 # b'" using Cons.IH by blast
    then have "x # xs = (x # a') @ 32 # 32 # b'" by simp
    then show ?thesis by blast
  qed
qed

lemma pair_in_strip: "strip s = a @ c # d # b \<Longrightarrow> \<exists>a' b'. s = a' @ c # d # b'"
proof -
  assume e: "strip s = a @ c # d # b"
  obtain p q where "s = p @ strip s @ q" using strip_infix by blast
  with e have "s = (p @ a) @ c # d # (b @ q)" by simp
  then show ?thesis by blast
qed

lemma space_not_control: "\<not> is_removed_control 32"
  by (simp add: is_removed_control_def)

lemma clean_no_double_space:
  assumes "max_message_length cfg = IntValue n" and "0 \<le> n"
    and "\<forall>c \<in> set message. \<not> is_removed_control c"
  shows "clean_message cfg message \<noteq> a @ 32 # 32 # b"
proof
  assume e: "clean_message cfg message = a @ 32 # 32 # b"
  let ?col = "collapse_ws False message"
  have "\<forall>c \<in> set ?col. \<not> is_removed_control c"
    using assms(3) collapse_ws_subset space_not_control by blast
  then have f: "filter (\<lambda>c. \<not> is_removed_control c) ?col = ?col" by simp
  let ?t = "if nat n < length ?col then take (nat n) ?col @ [46, 46, 46] else ?col"
  have "clean_message cfg message = strip ?t"
    using clean_message_int [OF assms(1,2), of message] f
    by (simp add: is_removed_control_def Let_def)
  with e have "strip ?t = a @ 32 # 32 # b" by simp
  from pair_in_strip [OF this] obtain a' b' where t: "?t = a' @ 32 # 32 # b'" by blast
  have "\<exists>a'' b''. ?col = a'' @ 32 # 32 # b''"
  proof (cases "nat n < length ?col")
    case True
    with t have "take (nat n) ?col @ [46, 46, 46] = a' @ 32 # 32 # b'" by simp
    from pair_before_dots [OF this] obtain a2 b2 where "take (nat n) ?col = a2 @ 32 # 32 # b2"
      by blast
    from pair_in_prefix [OF this] show ?thesis by blast
  next
    case False
    with t show ?thesis by auto
  qed
  then obtain a3 b3 where c: "?col = a3 @ 32 # 32 # b3" by blast
  from collapse_ws_no_run [OF c] show False by (simp add: space_is_space)
qed

lemma clean_no_special:
  "map char_action (clean_message cfg message) = map Write (clean_message cfg message)"
proof (rule map_cong [OF refl])
  fix c assume "c \<in> set (clean_message cfg message)"
  then have "32 \<le> c" using clean_message_chars by blast
  then show "char_action c = Write c"
    by (simp add: char_action_def special_keys_def)
qed

lemma type_message_incremental:
  assumes "strip message \<noteq> []" and "click_target_region env r = (True, acts)"
    and "\<not> enter_raises env" and "typing_raises env = None"
    and "\<not> (use_clipboard cfg \<and> can_use_clipboard (clean_message cfg message))"
  shows "type_message cfg env r message =
     (True, acts @ [Hotkey ''ctrl'' ''a'', Press ''delete'']
              @ map Write (clean_message cfg message) @ [Press ''enter''])"
proof -
  from assms(1) have "message \<noteq> []" by (auto simp: strip_def)
  with assms show ?thesis
    unfolding type_message_def Let_def
    by (auto simp: type_character_by_character_def perform_def clean_no_special)
qed

lemma type_message_bulk:
  assumes "strip message \<noteq> []" and "click_target_region env r = (True, acts)"
    and "\<not> enter_raises env" and "clipboard_raises env = None"
    and "use_clipboard cfg" and "can_use_clipboard (clean_message cfg message)"
  shows "type_message cfg env r message =
     (True, acts @ [ClipboardCopy (clean_message cfg message), Hotkey ''ctrl'' ''a'',
                    Hotkey ''ctrl'' ''v'']
              @ (case paste_result env of
                   None \<Rightarrow> []
                 | Some original \<Rightarrow>
                     if original \<noteq> [] \<and> \<not> restore_raises env then [ClipboardCopy original]
                     else [])
              @ [Press ''enter''])"
proof -
  from assms(1) have "message \<noteq> []" by (auto simp: strip_def)
  with assms show ?thesis
    unfolding type_message_def Let_def
    by (cases "paste_result env") (simp_all add: type_with_clipboard_def perform_def)
qed

text \<open>
  The claim C10 as it is worded fails. The control characters are deleted after the
  whitespace runs were collapsed, so the text \<open>a\<close>, space, U+0001, space, \<open>b\<close> is
  injected with two adjacent spaces. And the length is tested after the cleaning: the
  text \<open>a      b\<close> has 8 characters, more than a maximum of 5, and is injected as
  \<open>a b\<close>, neither cut nor followed by dots.
\<close>

theorem clean_message_counterexample:
  "clean_message default_typer_config [97, 32, 1, 32, 98] = [97, 32, 32, 98]
   \<and> max_message_length short_typer_config = IntValue 5
   \<and> length (u ''a      b'') = 8
   \<and> clean_message short_typer_config (u ''a      b'') = u ''a b''"
  by (simp add: clean_message_def default_typer_config_def short_typer_config_def u_def
      is_space_def is_removed_control_def strip_def py_prefix_def)

text \<open>
  C10, amended. The text that \<open>type_message\<close> injects is \<open>_clean_message\<close> of the message
  and can differ from it. For a maximum that is a non-negative integer (2000 by default)
  it is the message with every whitespace run replaced by one space, then the
  characters U+0000 to U+0008, U+000B, U+000C, U+000E to U+001F and U+007F deleted, then,
  if that text is longer than the maximum, cut to its first maximum characters with
  three dots appended, and at last stripped; it has at most maximum plus 3 characters.
  For every configuration the injected text has no character below U+0020, no U+007F
  and no whitespace character but the space. Two adjacent spaces occur in it only when
  the message holds one of the deleted control characters. After a successful click and
  when no injection call raises, the clipboard receives exactly this text in the bulk
  mode, and exactly its characters are written, one by one, in the incremental mode.
\<close>

theorem clean_message_injected:
  "(max_message_length cfg = IntValue n \<and> 0 \<le> n \<longrightarrow>
      clean_message cfg message =
        strip (let message2 =
                     filter (\<lambda>c. \<not> (c \<le> 8 \<or> c = 11 \<or> c = 12 \<or> (14 \<le> c \<and> c \<le> 31) \<or> c = 127))
                       (collapse_ws False message)
               in if nat n < length message2 then take (nat n) message2 @ [46, 46, 46]
                  else message2)
      \<and> length (clean_message cfg message) \<le> nat n + 3
      \<and> (list_all (\<lambda>c. \<not> (c \<le> 8 \<or> c = 11 \<or> c = 12 \<or> (14 \<le> c \<and> c \<le> 31) \<or> c = 127)) message
           \<longrightarrow> (\<forall>a b. clean_message cfg message \<noteq> a @ 32 # 32 # b)))
   \<and> (\<forall>a c d b. collapse_ws False message = a @ c # d # b \<longrightarrow> \<not> (is_space c \<and> is_space d))
   \<and> (\<forall>c \<in> set (clean_message cfg message). 32 \<le> c \<and> c \<noteq> 127 \<and> (is_space c \<longrightarrow> c = 32))
   \<and> (strip message \<noteq> [] \<and> click_target_region env r = (True, acts) \<and> \<not> enter_raises env \<longrightarrow>
        (use_clipboard cfg \<and> can_use_clipboard (clean_message cfg message)
           \<and> clipboard_raises env = None \<longrightarrow>
         type_message cfg env r message =
           (True, acts @ [ClipboardCopy (clean_message cfg message), Hotkey ''ctrl'' ''a'',
                          Hotkey ''ctrl'' ''v'']
                    @ (case paste_result env of
                         None \<Rightarrow> []
                       | Some original \<Rightarrow>
                           if original \<noteq> [] \<and> \<not> restore_raises env
                           then [ClipboardCopy original] else [])
                    @ [Press ''enter'']))
        \<and> (\<not> (use_clipboard cfg \<and> can_use_clipboard (clean_message cfg message))
             \<and> typing_raises env = None \<longrightarrow>
           type_message cfg env r message =
             (True, acts @ [Hotkey ''ctrl'' ''a'', Press ''delete'']
                      @ map Write (clean_message cfg message) @ [Press ''enter''])))"
proof (intro conjI impI allI ballI; (elim conjE)?)
  assume i: "max_message_length cfg = IntValue n" and n: "0 \<le> n"
  show "clean_message cfg message =
        strip (let message2 =
                     filter (\<lambda>c. \<not> (c \<le> 8 \<or> c = 11 \<or> c = 12 \<or> (14 \<le> c \<and> c \<le> 31) \<or> c = 127))
                       (collapse_ws False message)
               in if nat n < length message2 then take (nat n) message2 @ [46, 46, 46]
                  else message2)"
    using i n by (rule clean_message_int)
  show "length (clean_message cfg message) \<le> nat n + 3"
    using i n by (rule clean_message_length)
  fix a b
  assume "list_all (\<lambda>c. \<not> (c \<le> 8 \<or> c = 11 \<or> c = 12 \<or> (14 \<le> c \<and> c \<le> 31) \<or> c = 127)) message"
  then have "\<forall>c \<in> set message. \<not> is_removed_control c"
    by (simp add: list_all_iff is_removed_control_def)
  with i n show "clean_message cfg message \<noteq> a @ 32 # 32 # b"
    by (rule clean_no_double_space)
next
  fix a c d b
  assume "collapse_ws False message = a @ c # d # b"
  then show "\<not> (is_space c \<and> is_space d)" by (rule collapse_ws_no_run)
next
  fix c assume "c \<in> set (clean_message cfg message)"
  then have "32 \<le> c \<and> c \<noteq> 127 \<and> (is_space c \<longrightarrow> c = 32)" by (rule clean_message_chars)
  then show "32 \<le> c" and "c \<noteq> 127" by simp_all
next
  fix c assume "c \<in> set (clean_message cfg message)" and "is_space c"
  then show "c = 32" using clean_message_chars by blast
next
  assume "strip message \<noteq> []" "click_target_region env r = (True, acts)" "\<not> enter_raises env"
    "use_clipboard cfg" "can_use_clipboard (clean_message cfg message)" "clipboard_raises env = None"
  then show "type_message cfg env r message =
           (True, acts @ [ClipboardCopy (clean_message cfg message), Hotkey ''ctrl'' ''a'',
                          Hotkey ''ctrl'' ''v'']
                    @ (case paste_result env of
                         None \<Rightarrow> []
                       | Some original \<Rightarrow>
                           if original \<noteq> [] \<and> \<not> restore_raises env
                           then [ClipboardCopy original] else [])
                    @ [Press ''enter''])"
    by (simp add: type_message_bulk)
next
  assume "strip message \<noteq> []" "click_target_region env r = (True, acts)" "\<not> enter_raises env"
    "\<not> (use_clipboard cfg \<and> can_use_clipboard (clean_message cfg message))"
    "typing_raises env = None"
  then show "type_message cfg env r message =
             (True, acts @ [Hotkey ''ctrl'' ''a'', Press ''delete'']
                      @ map Write (clean_message cfg message) @ [Press ''enter''])"
    by (intro type_message_incremental)
qed

theorem clean_message_injected_witness:
  "max_message_length short_typer_config = IntValue 5 \<and> (0::int) \<le> 5
   \<and> strip [72, 101, 108, 108, 111, 1, 32, 32, 32, 116, 104, 101, 114, 101] \<noteq> []
   \<and> click_target_region calm_env (0, 0, 800, 600)
       = (True, [Click 400 540, Press ''space'', Press ''backspace''])
   \<and> \<not> enter_raises calm_env \<and> typing_raises calm_env = None
   \<and> clipboard_raises calm_env = None
   \<and> clean_message short_typer_config
        [72, 101, 108, 108, 111, 1, 32, 32, 32, 116, 104, 101, 114, 101]
       = [72, 101, 108, 108, 111, 46, 46, 46]
   \<and> \<not> can_use_clipboard [72, 101, 108, 108, 111, 46, 46, 46]
   \<and> type_message short_typer_config calm_env (0, 0, 800, 600)
        [72, 101, 108, 108, 111, 1, 32, 32, 32, 116, 104, 101, 114, 101]
       = (True, [Click 400 540, Press ''space'', Press ''backspace'', Hotkey ''ctrl'' ''a'',
                 Press ''delete'', Write 72, Write 101, Write 108, Write 108, Write 111,
                 Write 46, Write 46, Write 46, Press ''enter''])
   \<and> use_clipboard default_typer_config \<and> can_use_clipboard chinese_text
   \<and> strip chinese_text \<noteq> []
   \<and> type_message default_typer_config calm_env (0, 0, 800, 600) chinese_text
       = (True, [Click 400 540, Press ''space'', Press ''backspace'',
                 ClipboardCopy chinese_text, Hotkey ''ctrl'' ''a'', Hotkey ''ctrl'' ''v'',
                 Press ''enter''])
   \<and> list_all (\<lambda>c. \<not> (c \<le> 8 \<or> c = 11 \<or> c = 12 \<or> (14 \<le> c \<and> c \<le> 31) \<or> c = 127))
         (u ''a      b'')
   \<and> clean_message short_typer_config (u ''a      b'') = u ''a b''"
proof -
  let ?m = "[72, 101, 108, 108, 111, 1, 32, 32, 32, 116, 104, 101, 114, 101] :: ustr"
  let ?r = "(0, 0, 800, 600) :: region"
  let ?acts = "[Click 400 540, Press ''space'', Press ''backspace'']"
  have l: "max_message_length short_typer_config = IntValue 5"
    by (simp add: short_typer_config_def)
  have s: "strip ?m \<noteq> []" by (simp add: strip_def is_space_def)
  have c: "clean_message short_typer_config ?m = [72, 101, 108, 108, 111, 46, 46, 46]"
    by (simp add: clean_message_def short_typer_config_def u_def is_space_def
        is_removed_control_def strip_def py_prefix_def)
  have n: "\<not> can_use_clipboard [72, 101, 108, 108, 111, 46, 46, 46]"
    by (simp add: can_use_clipboard_def)
  then have n': "\<not> (use_clipboard short_typer_config
      \<and> can_use_clipboard (clean_message short_typer_config ?m))"
    unfolding c by blast
  from clean_message_injected [of short_typer_config 5 ?m calm_env ?r ?acts]
    s click_calm calm_env_fields n'
  have "type_message short_typer_config calm_env ?r ?m =
      (True, ?acts @ [Hotkey ''ctrl'' ''a'', Press ''delete'']
               @ map Write (clean_message short_typer_config ?m) @ [Press ''enter''])"
    by blast
  then have t: "type_message short_typer_config calm_env ?r ?m
       = (True, [Click 400 540, Press ''space'', Press ''backspace'', Hotkey ''ctrl'' ''a'',
                 Press ''delete'', Write 72, Write 101, Write 108, Write 108, Write 111,
                 Write 46, Write 46, Write 46, Press ''enter''])"
    unfolding c by simp
  have d: "use_clipboard default_typer_config" by (simp add: default_typer_config_def)
  have sc: "strip chinese_text \<noteq> []"
    by (simp add: strip_chinese) (simp add: chinese_text_def)
  have cc: "can_use_clipboard (clean_message default_typer_config chinese_text)"
    by (simp add: clean_chinese chinese_clipboard)
  from clean_message_injected [of default_typer_config 2000 chinese_text calm_env ?r ?acts]
    sc click_calm calm_env_fields d cc
  have "type_message default_typer_config calm_env ?r chinese_text =
      (True, ?acts @ [ClipboardCopy (clean_message default_typer_config chinese_text),
                      Hotkey ''ctrl'' ''a'', Hotkey ''ctrl'' ''v'']
               @ (case paste_result calm_env of
                    None \<Rightarrow> []
                  | Some original \<Rightarrow>
                      if original \<noteq> [] \<and> \<not> restore_raises calm_env
                      then [ClipboardCopy original] else [])
               @ [Press ''enter''])"
    by blast
  then have b: "type_message default_typer_config calm_env ?r chinese_text
       = (True, [Click 400 540, Press ''space'', Press ''backspace'',
                 ClipboardCopy chinese_text, Hotkey ''ctrl'' ''a'', Hotkey ''ctrl'' ''v'',
                 Press ''enter''])"
    by (simp add: clean_chinese calm_env_fields)
  have a: "list_all (\<lambda>c. \<not> (c \<le> 8 \<or> c = 11 \<or> c = 12 \<or> (14 \<le> c \<and> c \<le> 31) \<or> c = 127))
         (u ''a      b'')"
    by (simp add: u_def)
  have e: "clean_message short_typer_config (u ''a      b'') = u ''a b''"
    by (simp add: clean_message_def short_typer_config_def u_def is_space_def
        is_removed_control_def strip_def py_prefix_def)
  have z: "(0::int) \<le> 5" by simp
  show ?thesis
    using l z s click_calm calm_env_fields c n t d chinese_clipboard sc b a e by blast
qed

subsection \<open>Text extraction\<close>











subsection \<open>The relay loop\<close>

lemma hello_nonempty: "hello_text \<noteq> []"
  by (simp add: hello_text_def u_def)

lemma hello_change: "has_meaningful_change [] hello_text"
  by (simp add: has_meaningful_change_def strip_hello) (simp add: hello_text_def u_def)

lemma wait_timeout_pass: "wait_for_new_message 60 [] (it_polls timeout_pass) = None"
  by (simp add: timeout_pass_def)

lemma wait_hello_pass: "wait_for_new_message 60 [] (it_polls hello_pass) = Some hello_text"
  using hello_nonempty hello_change by (simp add: hello_pass_def)

lemma click_calm_right: "click_target_region calm_env (800, 0, 800, 600)
    = (True, [Click 1200 540, Press ''space'', Press ''backspace''])"
  by (simp add: click_target_region_def click_positions_def calm_env_def perform_def scale_def)

lemma forward_hello:
  "forward_message_to_side example_config calm_env target_side hello_text"
proof -
  have n: "\<not> (use_clipboard default_typer_config
      \<and> can_use_clipboard (clean_message default_typer_config hello_text))"
    by (simp add: clean_hello hello_not_clipboard)
  have s: "strip hello_text \<noteq> []" by (simp add: strip_hello hello_nonempty)
  have "fst (type_message default_typer_config calm_env (0, 0, 800, 600) hello_text)"
    using type_message_incremental [OF s click_calm _ _ n] by (simp add: calm_env_fields)
  moreover have "fst (type_message default_typer_config calm_env (800, 0, 800, 600) hello_text)"
    using type_message_incremental [OF s click_calm_right _ _ n] by (simp add: calm_env_fields)
  ultimately show ?thesis
    by (simp add: forward_message_to_side_def example_config_def)
qed

lemma example_config_fields:
  "unicode example_config = caseless_db" "max_turns example_config = 50"
  by (simp_all add: example_config_def)

lemma hello_pass_fields: "it_running hello_pass" "it_typer hello_pass = calm_env"
  by (simp_all add: hello_pass_def)

lemma relay_hello:
  assumes "last_content st speaker = []"
  shows "relay_turn example_config hello_pass st speaker listener =
     ((set_last_content st speaker hello_text)
        \<lparr>current_speaker := listener, conversation_turn := Suc (conversation_turn st),
         events := events st @
           [MessageDisplay speaker hello_text, ConversationMessage speaker listener hello_text,
            Forward listener hello_text True,
            TurnAnnounced (Suc (conversation_turn st)) speaker listener]\<rparr>, False)"
  using assms hello_nonempty
  by (simp add: relay_turn_def wait_hello_pass example_config_fields extract_hello
      hello_pass_fields forward_hello set_last_content_def)

lemma relay_no_message:
  assumes "wait_for_new_message 60 (last_content st speaker) (it_polls w) = None"
  shows "relay_turn cfg w st speaker listener = (st, False)"
  using assms by (simp add: relay_turn_def)

lemma iteration_no_message:
  assumes "wait_for_new_message 60 (last_content st (current_speaker st)) (it_polls w) = None"
    and "int (conversation_turn st) < max_turns cfg"
  shows "bridge_iteration cfg w st = (st, False)"
proof (cases "current_speaker st")
  case Left
  with assms show ?thesis by (simp add: bridge_iteration_def relay_no_message)
next
  case Right
  with assms show ?thesis by (simp add: bridge_iteration_def relay_no_message)
qed

lemma run_timeout_then_hello:
  "bridge_loop example_config [timeout_pass, hello_pass] initial_state =
     \<lparr>current_speaker = Right, last_left_content = hello_text, last_right_content = [],
      conversation_turn = 1,
      events = [BridgeStarted, MessageDisplay Left hello_text,
                ConversationMessage Left Right hello_text, Forward Right hello_text True,
                TurnAnnounced 1 Left Right, BridgeEnded]\<rparr>"
proof -
  have l: "last_content initial_state Left = []"
    by (simp add: last_content_def initial_state_def)
  have t: "bridge_iteration example_config timeout_pass initial_state = (initial_state, False)"
    by (rule iteration_no_message)
       (simp_all add: initial_state_def last_content_def wait_timeout_pass example_config_fields)
  have r: "it_running timeout_pass" by (simp add: timeout_pass_def)
  have c: "int (conversation_turn initial_state) < max_turns example_config"
    by (simp add: initial_state_def example_config_fields)
  have s: "current_speaker initial_state = Left" by (simp add: initial_state_def)
  have h: "bridge_iteration example_config hello_pass initial_state =
     ((set_last_content initial_state Left hello_text)
        \<lparr>current_speaker := Right, conversation_turn := Suc (conversation_turn initial_state),
         events := events initial_state @
           [MessageDisplay Left hello_text, ConversationMessage Left Right hello_text,
            Forward Right hello_text True,
            TurnAnnounced (Suc (conversation_turn initial_state)) Left Right]\<rparr>, False)"
    unfolding bridge_iteration_def s using relay_hello [OF l, of Right]
    by (simp add: example_config_fields initial_state_def)
  show ?thesis
    using r c t h hello_pass_fields
    by (simp add: bridge_end_def set_last_content_def initial_state_def)
qed

text \<open>
  The claim C1 as it is worded fails: in the first pass nothing is accepted from the left
  rectangle until the timeout has elapsed, and the session is not ended; the loop waits
  for the same speaker again, and in the second pass the left turn is relayed.
\<close>

theorem timeout_counterexample:
  "it_running timeout_pass
   \<and> wait_for_new_message 60 (last_content initial_state Left) (it_polls timeout_pass) = None
   \<and> bridge_loop example_config [timeout_pass, hello_pass] initial_state =
     \<lparr>current_speaker = Right, last_left_content = hello_text, last_right_content = [],
      conversation_turn = 1,
      events = [BridgeStarted, MessageDisplay Left hello_text,
                ConversationMessage Left Right hello_text, Forward Right hello_text True,
                TurnAnnounced 1 Left Right, BridgeEnded]\<rparr>"
  using run_timeout_then_hello wait_timeout_pass
  by (simp add: last_content_def initial_state_def timeout_pass_def)

text \<open>
  C1, amended. A poll at which the timeout has elapsed ends the wait without a message,
  whatever is on the screen then. A pass whose wait ends without a message commits
  nothing: the turn counter, the expected speaker, the stored contents and the events
  are unchanged. The session is not ended by it: the loop tests the stop flag and the
  cap again and waits for the same speaker once more.
\<close>

theorem timeout_keeps_waiting:
  "(\<not> poll_elapsed p < timeout \<longrightarrow> wait_for_new_message timeout content (p # ps) = None)
   \<and> (wait_for_new_message 60 (last_content st (current_speaker st)) (it_polls w) = None
        \<and> it_running w \<and> int (conversation_turn st) < max_turns cfg \<longrightarrow>
      bridge_iteration cfg w st = (st, False)
      \<and> bridge_loop cfg (w # ws) st = bridge_loop cfg ws st)"
  by (simp add: iteration_no_message)

theorem timeout_keeps_waiting_witness:
  "\<not> poll_elapsed \<lparr>poll_running = True, poll_elapsed = 60, poll_content = Some hello_text\<rparr> < 60
   \<and> wait_for_new_message 60 []
       [\<lparr>poll_running = True, poll_elapsed = 60, poll_content = Some hello_text\<rparr>] = None
   \<and> wait_for_new_message 60 (last_content initial_state (current_speaker initial_state))
        (it_polls timeout_pass) = None
   \<and> it_running timeout_pass
   \<and> int (conversation_turn initial_state) < max_turns example_config
   \<and> bridge_iteration example_config timeout_pass initial_state = (initial_state, False)
   \<and> bridge_loop example_config [timeout_pass, hello_pass] initial_state
       = bridge_loop example_config [hello_pass] initial_state"
proof -
  have a: "\<not> poll_elapsed \<lparr>poll_running = True, poll_elapsed = 60,
      poll_content = Some hello_text\<rparr> < 60" by simp
  have w: "wait_for_new_message 60 (last_content initial_state (current_speaker initial_state))
        (it_polls timeout_pass) = None"
    by (simp add: last_content_def initial_state_def wait_timeout_pass)
  have r: "it_running timeout_pass" by (simp add: timeout_pass_def)
  have c: "int (conversation_turn initial_state) < max_turns example_config"
    by (simp add: initial_state_def example_config_fields)
  from timeout_keeps_waiting [of "\<lparr>poll_running = True, poll_elapsed = 60,
      poll_content = Some hello_text\<rparr>" 60 "[]" "[]" initial_state timeout_pass example_config
      "[hello_pass]"] a w r c
  show ?thesis by blast
qed

lemma wait_nonempty: "wait_for_new_message timeout content ps = Some m \<Longrightarrow> m \<noteq> []"
  by (induction ps) (auto split: if_splits option.splits)

lemma relay_commit:
  assumes "wait_for_new_message 60 (last_content st speaker) (it_polls w) = Some new_message"
    and "extract_latest_reply (unicode cfg) new_message = Some reply" and "reply \<noteq> []"
  shows "relay_turn cfg w st speaker listener =
     (if forward_message_to_side cfg (it_typer w) listener reply
      then ((set_last_content st speaker new_message)
              \<lparr>current_speaker := listener, conversation_turn := Suc (conversation_turn st),
               events := events st @
                 [MessageDisplay speaker new_message, ConversationMessage speaker listener reply,
                  Forward listener reply True,
                  TurnAnnounced (Suc (conversation_turn st)) speaker listener]\<rparr>, False)
      else ((set_last_content st speaker new_message)
              \<lparr>events := events st @
                 [MessageDisplay speaker new_message, ConversationMessage speaker listener reply,
                  Forward listener reply False, ForwardFailed listener]\<rparr>, True))"
  using assms wait_nonempty [OF assms(1)]
  by (simp add: relay_turn_def Let_def set_last_content_def)

lemma iteration_commit:
  assumes "wait_for_new_message 60 (last_content st (current_speaker st)) (it_polls w)
      = Some new_message"
    and "extract_latest_reply (unicode cfg) new_message = Some reply" and "reply \<noteq> []"
    and "listener = (if current_speaker st = Left then Right else Left)"
    and "ok = forward_message_to_side cfg (it_typer w) listener reply"
  shows "(\<exists>rest. events (fst (bridge_iteration cfg w st)) =
            events st @ [MessageDisplay (current_speaker st) new_message,
                         ConversationMessage (current_speaker st) listener reply,
                         Forward listener reply ok] @ rest)
    \<and> (ok \<longrightarrow> current_speaker (fst (bridge_iteration cfg w st)) = listener
             \<and> conversation_turn (fst (bridge_iteration cfg w st)) = Suc (conversation_turn st))
    \<and> (\<not> ok \<longrightarrow> snd (bridge_iteration cfg w st)
             \<and> current_speaker (fst (bridge_iteration cfg w st)) = current_speaker st
             \<and> conversation_turn (fst (bridge_iteration cfg w st)) = conversation_turn st)"
proof (cases "current_speaker st")
  case Left
  with assms(4) have l: "listener = Right" by simp
  from assms(1) Left have w: "wait_for_new_message 60 (last_content st Left) (it_polls w)
      = Some new_message" by simp
  show ?thesis
    unfolding bridge_iteration_def relay_commit [OF w assms(2,3)] l assms(5) Left
    using Left by (simp add: set_last_content_def)
next
  case Right
  with assms(4) have l: "listener = Left" by simp
  from assms(1) Right have w: "wait_for_new_message 60 (last_content st Right) (it_polls w)
      = Some new_message" by simp
  show ?thesis
    unfolding bridge_iteration_def relay_commit [OF w assms(2,3)] l assms(5) Right
    using Right by (simp add: set_last_content_def)
qed

lemma add_message_duplicate:
  "is_duplicate_message cm session_id (H content) \<Longrightarrow>
     add_message H cm session_id sender recipient content = (False, cm)"
  by (simp add: add_message_def)

lemma run_hello_twice:
  "bridge_loop example_config [hello_pass, hello_pass] initial_state =
     \<lparr>current_speaker = Left, last_left_content = hello_text, last_right_content = hello_text,
      conversation_turn = 2,
      events = [BridgeStarted, MessageDisplay Left hello_text,
                ConversationMessage Left Right hello_text, Forward Right hello_text True,
                TurnAnnounced 1 Left Right, MessageDisplay Right hello_text,
                ConversationMessage Right Left hello_text, Forward Left hello_text True,
                TurnAnnounced 2 Right Left, BridgeEnded]\<rparr>"
proof -
  let ?s1 = "\<lparr>current_speaker = Right, last_left_content = hello_text,
      last_right_content = [], conversation_turn = 1,
      events = [BridgeStarted, MessageDisplay Left hello_text,
                ConversationMessage Left Right hello_text, Forward Right hello_text True,
                TurnAnnounced 1 Left Right]\<rparr>"
  have l0: "last_content initial_state Left = []"
    by (simp add: last_content_def initial_state_def)
  have i1: "bridge_iteration example_config hello_pass initial_state = (?s1, False)"
    unfolding bridge_iteration_def using relay_hello [OF l0, of Right]
    by (simp add: example_config_fields initial_state_def set_last_content_def)
  have l1: "last_content ?s1 Right = []" by (simp add: last_content_def)
  have i2: "bridge_iteration example_config hello_pass ?s1 =
     (\<lparr>current_speaker = Left, last_left_content = hello_text,
       last_right_content = hello_text, conversation_turn = 2,
       events = [BridgeStarted, MessageDisplay Left hello_text,
                ConversationMessage Left Right hello_text, Forward Right hello_text True,
                TurnAnnounced 1 Left Right, MessageDisplay Right hello_text,
                ConversationMessage Right Left hello_text, Forward Left hello_text True,
                TurnAnnounced 2 Right Left]\<rparr>, False)"
    unfolding bridge_iteration_def using relay_hello [OF l1, of Left]
    by (simp add: example_config_fields set_last_content_def)
  have c0: "int (conversation_turn initial_state) < max_turns example_config"
    by (simp add: initial_state_def example_config_fields)
  have c1: "int (conversation_turn ?s1) < max_turns example_config"
    by (simp add: example_config_fields)
  show ?thesis
    using c0 c1 hello_pass_fields i1 i2 by (simp add: bridge_end_def)
qed

text \<open>
  The claim C2 as it is worded fails: after the left turn was relayed, the right
  rectangle shows the same text; the ledger would call it a duplicate, and yet the loop
  enters it into the transcript, forwards it to the left, changes the speaker and counts
  a second turn.
\<close>

theorem duplicate_counterexample:
  "fst (add_message content_hash
         (snd (add_message content_hash empty_ledger (u ''s1'') (u ''left'') (u ''right'')
                 hello_text))
         (u ''s1'') (u ''right'') (u ''left'') hello_text) = False
   \<and> bridge_loop example_config [hello_pass, hello_pass] initial_state =
     \<lparr>current_speaker = Left, last_left_content = hello_text, last_right_content = hello_text,
      conversation_turn = 2,
      events = [BridgeStarted, MessageDisplay Left hello_text,
                ConversationMessage Left Right hello_text, Forward Right hello_text True,
                TurnAnnounced 1 Left Right, MessageDisplay Right hello_text,
                ConversationMessage Right Left hello_text, Forward Left hello_text True,
                TurnAnnounced 2 Right Left, BridgeEnded]\<rparr>"
proof -
  have "fst (add_message content_hash
         (snd (add_message content_hash empty_ledger (u ''s1'') (u ''left'') (u ''right'')
                 hello_text))
         (u ''s1'') (u ''right'') (u ''left'') hello_text) = False"
    by (simp add: add_message_def is_duplicate_message_def save_cached_messages_def
        empty_ledger_def content_hash_def Let_def)
  then show ?thesis using run_hello_twice by simp
qed

text \<open>
  C2, amended. The duplicate test is part of the ledger only: \<open>add_message\<close> answers
  false and stores nothing for a fingerprint that the session has already stored. The
  loop does not consult the ledger. For every accepted change with a non-null extracted
  turn it displays the text, enters the turn into the transcript and calls the delivery
  on the opposite rectangle, whatever was relayed before; when the delivery succeeds the
  expected speaker changes and the turn counter goes up by one, and when it fails the
  loop is left with speaker and counter unchanged.
\<close>

theorem relay_without_ledger:
  "(is_duplicate_message cm session_id (H content) \<longrightarrow>
      add_message H cm session_id sender recipient content = (False, cm))
   \<and> (wait_for_new_message 60 (last_content st (current_speaker st)) (it_polls w)
         = Some new_message
       \<and> extract_latest_reply (unicode cfg) new_message = Some reply \<and> reply \<noteq> []
       \<and> listener = (if current_speaker st = Left then Right else Left)
       \<and> ok = forward_message_to_side cfg (it_typer w) listener reply \<longrightarrow>
      (\<exists>rest. events (fst (bridge_iteration cfg w st)) =
            events st @ [MessageDisplay (current_speaker st) new_message,
                         ConversationMessage (current_speaker st) listener reply,
                         Forward listener reply ok] @ rest)
      \<and> (ok \<longrightarrow> current_speaker (fst (bridge_iteration cfg w st)) = listener
             \<and> conversation_turn (fst (bridge_iteration cfg w st)) = Suc (conversation_turn st))
      \<and> (\<not> ok \<longrightarrow> snd (bridge_iteration cfg w st)
             \<and> current_speaker (fst (bridge_iteration cfg w st)) = current_speaker st
             \<and> conversation_turn (fst (bridge_iteration cfg w st)) = conversation_turn st))"
  using add_message_duplicate iteration_commit by blast

theorem relay_without_ledger_witness:
  "is_duplicate_message hello_ledger (u ''s1'') (content_hash hello_text)
   \<and> add_message content_hash hello_ledger (u ''s1'') (u ''right'') (u ''left'') hello_text
       = (False, hello_ledger)
   \<and> wait_for_new_message 60 (last_content after_first_turn (current_speaker after_first_turn))
         (it_polls hello_pass) = Some hello_text
   \<and> extract_latest_reply (unicode example_config) hello_text = Some hello_text
   \<and> hello_text \<noteq> []
   \<and> current_speaker after_first_turn = Right
   \<and> forward_message_to_side example_config (it_typer hello_pass) Left hello_text
   \<and> current_speaker (fst (bridge_iteration example_config hello_pass after_first_turn)) = Left
   \<and> conversation_turn (fst (bridge_iteration example_config hello_pass after_first_turn)) = 2"
proof -
  have d: "is_duplicate_message hello_ledger (u ''s1'') (content_hash hello_text)"
    by (simp add: hello_ledger_def add_message_def is_duplicate_message_def
        save_cached_messages_def empty_ledger_def content_hash_def Let_def)
  have w: "wait_for_new_message 60 (last_content after_first_turn (current_speaker after_first_turn))
         (it_polls hello_pass) = Some hello_text"
    by (simp add: after_first_turn_def last_content_def wait_hello_pass)
  have e: "extract_latest_reply (unicode example_config) hello_text = Some hello_text"
    by (simp add: example_config_fields extract_hello)
  have s: "current_speaker after_first_turn = Right" by (simp add: after_first_turn_def)
  then have l: "Left = (if current_speaker after_first_turn = Left then Right else Left)"
    by simp
  have f: "forward_message_to_side example_config (it_typer hello_pass) Left hello_text"
    by (simp add: hello_pass_fields forward_hello)
  then have o: "True = forward_message_to_side example_config (it_typer hello_pass) Left hello_text"
    by simp
  have t: "conversation_turn after_first_turn = 1" by (simp add: after_first_turn_def)
  from relay_without_ledger [of hello_ledger "u ''s1''" content_hash hello_text "u ''right''"
      "u ''left''" after_first_turn hello_pass hello_text example_config hello_text Left True]
    d w e hello_nonempty l o
  have "add_message content_hash hello_ledger (u ''s1'') (u ''right'') (u ''left'') hello_text
       = (False, hello_ledger)"
    and "current_speaker (fst (bridge_iteration example_config hello_pass after_first_turn)) = Left"
    and "conversation_turn (fst (bridge_iteration example_config hello_pass after_first_turn))
       = Suc (conversation_turn after_first_turn)"
    by blast+
  then show ?thesis using d w e hello_nonempty s f t by simp
qed

lemma turns_upto_Suc:
  "turns_upto (Suc n) = turns_upto n @
     [TurnAnnounced (Suc n) (if even n then Left else Right) (if even n then Right else Left)]"
  by (simp add: turns_upto_def)

lemma relay_turn_inv:
  assumes "loop_inv 0 st" and "speaker = current_speaker st"
    and "listener = (if speaker = Left then Right else Left)"
    and "relay_turn cfg w st speaker listener = (st', brk)"
  shows "if brk then loop_inv 1 st' else loop_inv 0 st'"
proof (cases "wait_for_new_message 60 (last_content st speaker) (it_polls w)")
  case None
  with assms show ?thesis by (simp add: relay_turn_def)
next
  case (Some new_message)
  note w = this
  show ?thesis
  proof (cases "new_message = []")
    case True
    with w assms show ?thesis by (simp add: relay_turn_def)
  next
    case False
    note n = this
    show ?thesis
    proof (cases "extract_latest_reply (unicode cfg) new_message")
      case None
      with w n assms show ?thesis
        by (cases "even (conversation_turn st)")
           (auto simp: relay_turn_def loop_inv_def set_last_content_def)
    next
      case (Some reply)
      note e = this
      show ?thesis
      proof (cases "reply = []")
        case True
        with w n e assms show ?thesis
          by (cases "even (conversation_turn st)")
           (auto simp: relay_turn_def loop_inv_def set_last_content_def)
      next
        case False
        with w n e assms show ?thesis
          by (cases "forward_message_to_side cfg (it_typer w) listener reply";
              cases "even (conversation_turn st)")
             (auto simp: relay_turn_def loop_inv_def set_last_content_def turns_upto_Suc Let_def)
      qed
    qed
  qed
qed

lemma loop_inv_cap: "loop_inv f st \<Longrightarrow> loop_inv f (st\<lparr>events := events st @ [MaxTurnsReached]\<rparr>)"
  by (simp add: loop_inv_def)

lemma bridge_iteration_inv:
  assumes "loop_inv 0 st" and "bridge_iteration cfg w st = (st', brk)"
  shows "if brk then loop_inv 0 st' \<or> loop_inv 1 st' else loop_inv 0 st'"
proof -
  let ?sp = "current_speaker st"
  let ?li = "if ?sp = Left then Right else Left"
  obtain s1 b1 where r: "relay_turn cfg w st ?sp ?li = (s1, b1)"
    by (cases "relay_turn cfg w st ?sp ?li")
  from relay_turn_inv [OF assms(1) refl refl r]
  have i: "if b1 then loop_inv 1 s1 else loop_inv 0 s1" .
  have "(if current_speaker st = Left then relay_turn cfg w st Left Right
         else relay_turn cfg w st Right Left) = (s1, b1)"
    using r by (cases "current_speaker st") simp_all
  with assms(2) have "(st', brk) =
      (if b1 then (s1, True)
       else if max_turns cfg \<le> int (conversation_turn s1)
            then (s1\<lparr>events := events s1 @ [MaxTurnsReached]\<rparr>, True) else (s1, False))"
    by (cases b1) (auto simp: bridge_iteration_def split: if_splits)
  with i show ?thesis
    by (auto split: if_splits simp: loop_inv_cap)
qed

lemma loop_inv_end: "loop_inv f st \<Longrightarrow> loop_inv f (bridge_end st)"
  by (simp add: loop_inv_def bridge_end_def)

lemma bridge_loop_inv:
  "loop_inv 0 st \<Longrightarrow> loop_inv 0 (bridge_loop cfg ws st) \<or> loop_inv 1 (bridge_loop cfg ws st)"
proof (induction ws arbitrary: st)
  case Nil
  then show ?case by (simp add: loop_inv_end)
next
  case (Cons w ws)
  show ?case
  proof (cases "it_running w \<and> int (conversation_turn st) < max_turns cfg")
    case False
    with Cons.prems show ?thesis by (auto simp: loop_inv_end)
  next
    case True
    obtain s1 b1 where i: "bridge_iteration cfg w st = (s1, b1)"
      by (cases "bridge_iteration cfg w st")
    from bridge_iteration_inv [OF Cons.prems i]
    have v: "if b1 then loop_inv 0 s1 \<or> loop_inv 1 s1 else loop_inv 0 s1" .
    show ?thesis
    proof (cases b1)
      case True
      with v have "loop_inv 0 (bridge_end s1) \<or> loop_inv 1 (bridge_end s1)"
        using loop_inv_end by auto
      with True i \<open>it_running w \<and> int (conversation_turn st) < max_turns cfg\<close>
      show ?thesis by simp
    next
      case False
      with v have "loop_inv 0 s1" by simp
      from Cons.IH [OF this] False i \<open>it_running w \<and> int (conversation_turn st) < max_turns cfg\<close>
      show ?thesis by simp
    qed
  qed
qed

lemma loop_inv_initial: "loop_inv 0 initial_state"
  by (simp add: loop_inv_def initial_state_def turns_upto_def)

lemma click_failing: "click_target_region failing_env r = (False, [])"
  by (cases r) (simp add: click_target_region_def click_positions_def failing_env_def perform_def)

lemma forward_failing:
  "\<not> forward_message_to_side example_config failing_env target_side hello_text"
  using hello_nonempty
  by (simp add: forward_message_to_side_def type_message_def strip_hello click_failing)

lemma run_hello_fail:
  "bridge_loop example_config [hello_fail_pass] initial_state =
     \<lparr>current_speaker = Left, last_left_content = hello_text, last_right_content = [],
      conversation_turn = 0,
      events = [BridgeStarted, MessageDisplay Left hello_text,
                ConversationMessage Left Right hello_text, Forward Right hello_text False,
                ForwardFailed Right, BridgeEnded]\<rparr>"
proof -
  have p: "it_polls hello_fail_pass = it_polls hello_pass"
    and f: "it_typer hello_fail_pass = failing_env" and r: "it_running hello_fail_pass"
    by (simp_all add: hello_fail_pass_def hello_pass_def)
  have w: "wait_for_new_message 60 (last_content initial_state Left) (it_polls hello_fail_pass)
      = Some hello_text"
    by (simp add: p wait_hello_pass last_content_def initial_state_def)
  have e: "extract_latest_reply (unicode example_config) hello_text = Some hello_text"
    by (simp add: example_config_fields extract_hello)
  have s: "current_speaker initial_state = Left" by (simp add: initial_state_def)
  have i: "bridge_iteration example_config hello_fail_pass initial_state =
     ((set_last_content initial_state Left hello_text)
        \<lparr>events := events initial_state @
           [MessageDisplay Left hello_text, ConversationMessage Left Right hello_text,
            Forward Right hello_text False, ForwardFailed Right]\<rparr>, True)"
    unfolding bridge_iteration_def s relay_commit [OF w e hello_nonempty]
    by (simp add: f forward_failing)
  have c: "int (conversation_turn initial_state) < max_turns example_config"
    by (simp add: initial_state_def example_config_fields)
  show ?thesis
    using r c i by (simp add: bridge_end_def set_last_content_def initial_state_def)
qed

lemma iteration_step:
  "(conversation_turn (fst (bridge_iteration cfg w st)) = conversation_turn st
      \<and> current_speaker (fst (bridge_iteration cfg w st)) = current_speaker st)
   \<or> (conversation_turn (fst (bridge_iteration cfg w st)) = Suc (conversation_turn st)
      \<and> current_speaker (fst (bridge_iteration cfg w st)) \<noteq> current_speaker st)"
  by (cases "current_speaker st")
     (auto simp: bridge_iteration_def relay_turn_def Let_def set_last_content_def
        split: option.splits if_splits)

text \<open>
  The claim C3 as it is worded fails where a forward fails: the turn is entered into the
  transcript before it is forwarded, and a failed forward leaves the loop without
  counting it. After one committed turn the counter is 0.
\<close>

theorem commit_count_counterexample:
  "bridge_loop example_config [hello_fail_pass] initial_state =
     \<lparr>current_speaker = Left, last_left_content = hello_text, last_right_content = [],
      conversation_turn = 0,
      events = [BridgeStarted, MessageDisplay Left hello_text,
                ConversationMessage Left Right hello_text, Forward Right hello_text False,
                ForwardFailed Right, BridgeEnded]\<rparr>
   \<and> length (filter is_commit (events (bridge_loop example_config [hello_fail_pass]
         initial_state))) = 1
   \<and> conversation_turn (bridge_loop example_config [hello_fail_pass] initial_state) = 0"
  unfolding run_hello_fail by simp

text \<open>
  C3, amended. Every run of the loop starts with the left side as the expected speaker
  and ends in a state in which the expected speaker is the left side exactly when the
  turn counter is even, the announced turns are the turns 1 to the counter, from left to
  right at the odd and from right to left at the even numbers, and the counter is the
  number of successful forwards. The transcript holds one entry for every forward; at
  most one forward failed, the last one, so the committed turns are the counter, or one
  more after a failed forward. One pass of the loop leaves counter and speaker alone or
  adds exactly 1 to the counter and changes the speaker.
\<close>

theorem turn_alternation:
  "(let st = bridge_loop cfg ws initial_state in
      current_speaker st = (if even (conversation_turn st) then Left else Right)
      \<and> filter is_turn (events st) =
          map (\<lambda>k. TurnAnnounced (Suc k) (if even k then Left else Right)
                      (if even k then Right else Left)) [0..<conversation_turn st]
      \<and> length (filter is_delivered (events st)) = conversation_turn st
      \<and> length (filter is_commit (events st))
          = conversation_turn st + length (filter is_failed (events st))
      \<and> length (filter is_failed (events st)) \<le> 1)
   \<and> ((conversation_turn (fst (bridge_iteration cfg w s)) = conversation_turn s
        \<and> current_speaker (fst (bridge_iteration cfg w s)) = current_speaker s)
      \<or> (conversation_turn (fst (bridge_iteration cfg w s)) = Suc (conversation_turn s)
        \<and> current_speaker (fst (bridge_iteration cfg w s)) \<noteq> current_speaker s))"
proof -
  from bridge_loop_inv [OF loop_inv_initial, of cfg ws]
  have "loop_inv 0 (bridge_loop cfg ws initial_state)
      \<or> loop_inv 1 (bridge_loop cfg ws initial_state)" .
  then have "let st = bridge_loop cfg ws initial_state in
      current_speaker st = (if even (conversation_turn st) then Left else Right)
      \<and> filter is_turn (events st) =
          map (\<lambda>k. TurnAnnounced (Suc k) (if even k then Left else Right)
                      (if even k then Right else Left)) [0..<conversation_turn st]
      \<and> length (filter is_delivered (events st)) = conversation_turn st
      \<and> length (filter is_commit (events st))
          = conversation_turn st + length (filter is_failed (events st))
      \<and> length (filter is_failed (events st)) \<le> 1"
    unfolding loop_inv_def turns_upto_def Let_def by (elim disjE) simp_all
  then show ?thesis using iteration_step by blast
qed

theorem turn_alternation_witness:
  "conversation_turn (bridge_loop example_config [hello_pass, hello_pass] initial_state) = 2
   \<and> current_speaker (bridge_loop example_config [hello_pass, hello_pass] initial_state) = Left
   \<and> filter is_turn (events (bridge_loop example_config [hello_pass, hello_pass] initial_state))
       = [TurnAnnounced 1 Left Right, TurnAnnounced 2 Right Left]
   \<and> length (filter is_commit
        (events (bridge_loop example_config [hello_pass, hello_pass] initial_state))) = 2"
proof -
  let ?st = "bridge_loop example_config [hello_pass, hello_pass] initial_state"
  have t: "conversation_turn ?st = 2" unfolding run_hello_twice by simp
  have f: "length (filter is_failed (events ?st)) = 0" unfolding run_hello_twice by simp
  have u: "[0..<2] = [0, Suc 0]" by (simp add: upt_rec)
  from turn_alternation [of example_config "[hello_pass, hello_pass]"]
  have "current_speaker ?st = (if even (conversation_turn ?st) then Left else Right)"
    and "filter is_turn (events ?st) =
          map (\<lambda>k. TurnAnnounced (Suc k) (if even k then Left else Right)
                      (if even k then Right else Left)) [0..<conversation_turn ?st]"
    and "length (filter is_commit (events ?st))
          = conversation_turn ?st + length (filter is_failed (events ?st))"
    unfolding Let_def by blast+
  then show ?thesis unfolding t f u using t by simp
qed

end
